theory Spec2Isabelle
  imports Main "HOL-Library.AList" "HOL-Library.Char_ord" "HOL-Library.List_Lexorder"
begin

section \<open>Strings\<close>

text \<open>
  Identifiers, aliases and provider names are JavaScript strings. They are modelled as
  \<^typ>\<open>string\<close>, one \<^typ>\<open>char\<close> per UTF-16 code unit, for the ASCII range the
  sources emit: \<open>toLowerCase\<close> maps \<open>A\<close>..\<open>Z\<close> to \<open>a\<close>..\<open>z\<close> and leaves every
  other character as it is.
\<close>

definition toLowerCaseChar :: "char \<Rightarrow> char" where
  "toLowerCaseChar c =
     (case map_of (zip ''ABCDEFGHIJKLMNOPQRSTUVWXYZ'' ''abcdefghijklmnopqrstuvwxyz'') c of
        None \<Rightarrow> c
      | Some l \<Rightarrow> l)"

definition toLowerCase :: "string \<Rightarrow> string" where
  "toLowerCase s = map toLowerCaseChar s"

definition endsWith :: "string \<Rightarrow> string \<Rightarrow> bool" where
  "endsWith s suffix =
     (length suffix \<le> length s \<and> drop (length s - length suffix) s = suffix)"

definition startsWith :: "string \<Rightarrow> string \<Rightarrow> bool" where
  "startsWith s pre = (take (length pre) s = pre)"

text \<open>A string used as a condition: \<open>undefined\<close> and the empty string are falsy.\<close>

definition truthy :: "string option \<Rightarrow> bool" where
  "truthy s = (case s of None \<Rightarrow> False | Some t \<Rightarrow> t \<noteq> [])"

text \<open>
  \<open>Array.from(new Set(xs))\<close>: the elements of \<open>xs\<close> in the order of their first
  occurrence, compared by strict equality.
\<close>

definition uniq :: "'a list \<Rightarrow> 'a list" where
  "uniq xs = rev (remdups (rev xs))"

section \<open>Data model (sources/types.ts, types.ts)\<close>

text \<open>
  The field \<open>price.input\<close> / \<open>price.output\<close> of an offering is \<open>price_input\<close> /
  \<open>price_output\<close> here, and the modality lists \<open>input\<close> / \<open>output\<close> of a model are
  \<open>input_modalities\<close> / \<open>output_modalities\<close>; the field \<open>id\<close> is \<open>modelId\<close>. An optional
  field is an \<^typ>\<open>'a option\<close>, \<open>None\<close> standing for \<open>undefined\<close>. Token counts
  are integers.
\<close>

record Price =
  currency :: string
  price_input :: "string option"
  price_output :: "string option"

record ModelInformationOfProvider =
  providerId :: string
  providerName :: "string option"
  contextLength :: "int option"
  inputLimit :: "int option"
  outputLimit :: "int option"
  price :: "Price option"

section \<open>Merging the offerings of one model (deduplicateProviders)\<close>

text \<open>
  The predicate of \<open>deduplicated.find\<close>: the same currency (both absent counts as the
  same), and the same provider id or one provider name, longer than five characters, a
  prefix of the other.
\<close>

definition nameStartsWith :: "string option \<Rightarrow> string option \<Rightarrow> bool" where
  "nameStartsWith longer shorter =
     (case (shorter, longer) of
        (Some s, Some l) \<Rightarrow> s \<noteq> [] \<and> l \<noteq> [] \<and> length s > 5 \<and> startsWith l s
      | _ \<Rightarrow> False)"

definition sameProvider :: "ModelInformationOfProvider \<Rightarrow> ModelInformationOfProvider \<Rightarrow> bool" where
  "sameProvider p provider =
     (map_option currency (price p) = map_option currency (price provider) \<and>
      (providerId p = providerId provider \<or>
       nameStartsWith (providerName provider) (providerName p) \<or>
       nameStartsWith (providerName p) (providerName provider)))"

text \<open>
  \<open>parseFloat\<close> is a parameter: it gives the number a price string denotes, or \<open>None\<close>
  for \<open>NaN\<close>. The code only compares its results, and a comparison with \<open>NaN\<close> is false.
\<close>

definition floatGreater :: "('v::linorder) option \<Rightarrow> 'v option \<Rightarrow> bool" where
  "floatGreater a b = (case (a, b) of (Some x, Some y) \<Rightarrow> x > y | _ \<Rightarrow> False)"

definition mergeLimit :: "int option \<Rightarrow> int option \<Rightarrow> int option" where
  "mergeLimit existing provider =
     (case provider of
        None \<Rightarrow> existing
      | Some n \<Rightarrow>
          (case existing of
             None \<Rightarrow> Some n
           | Some e \<Rightarrow> if n < e then Some n else Some e))"

definition mergePriceValue ::
  "(string \<Rightarrow> ('v::linorder) option) \<Rightarrow> string option \<Rightarrow> string option \<Rightarrow> string option" where
  "mergePriceValue parseFloat existing provider =
     (case provider of
        None \<Rightarrow> existing
      | Some n \<Rightarrow>
          (case existing of
             None \<Rightarrow> Some n
           | Some e \<Rightarrow> if floatGreater (parseFloat n) (parseFloat e) then Some n else Some e))"

definition mergePrice ::
  "(string \<Rightarrow> ('v::linorder) option) \<Rightarrow> Price option \<Rightarrow> Price option \<Rightarrow> Price option" where
  "mergePrice parseFloat existing provider =
     (case provider of
        None \<Rightarrow> existing
      | Some pp \<Rightarrow>
          (let ep = (case existing of
                       None \<Rightarrow> \<lparr>currency = currency pp, price_input = None, price_output = None\<rparr>
                     | Some e \<Rightarrow> e)
           in Some (ep\<lparr>price_input := mergePriceValue parseFloat (price_input ep) (price_input pp),
                       price_output := mergePriceValue parseFloat (price_output ep) (price_output pp)\<rparr>)))"

definition mergeProviderName :: "string option \<Rightarrow> string option \<Rightarrow> string option" where
  "mergeProviderName existing provider =
     (if truthy provider \<and>
         (\<not> truthy existing \<or>
          length (case provider of Some n \<Rightarrow> n | None \<Rightarrow> []) >
          length (case existing of Some n \<Rightarrow> n | None \<Rightarrow> []))
      then provider else existing)"

text \<open>The body of \<open>if (existing) { ... }\<close>: the offering \<open>existing\<close> after the merge.\<close>

definition mergeProvider ::
  "(string \<Rightarrow> ('v::linorder) option) \<Rightarrow> ModelInformationOfProvider \<Rightarrow>
   ModelInformationOfProvider \<Rightarrow> ModelInformationOfProvider" where
  "mergeProvider parseFloat existing provider =
     \<lparr>providerId =
        (if length (providerId provider) < length (providerId existing)
         then providerId provider else providerId existing),
      providerName = mergeProviderName (providerName existing) (providerName provider),
      contextLength = mergeLimit (contextLength existing) (contextLength provider),
      inputLimit = mergeLimit (inputLimit existing) (inputLimit provider),
      outputLimit = mergeLimit (outputLimit existing) (outputLimit provider),
      price = mergePrice parseFloat (price existing) (price provider)\<rparr>"

text \<open>
  \<open>existing\<close> is the first element of \<open>deduplicated\<close> that satisfies the predicate; it is
  changed in place, so the list keeps its order and length.
\<close>

fun updateFirst :: "('a \<Rightarrow> bool) \<Rightarrow> ('a \<Rightarrow> 'a) \<Rightarrow> 'a list \<Rightarrow> 'a list" where
  "updateFirst P f [] = []"
| "updateFirst P f (x # xs) = (if P x then f x # xs else x # updateFirst P f xs)"

definition deduplicateProvidersStep ::
  "(string \<Rightarrow> ('v::linorder) option) \<Rightarrow> ModelInformationOfProvider list \<Rightarrow>
   ModelInformationOfProvider \<Rightarrow> ModelInformationOfProvider list" where
  "deduplicateProvidersStep parseFloat deduplicated provider =
     (case find (\<lambda>p. sameProvider p provider) deduplicated of
        Some existing \<Rightarrow>
          updateFirst (\<lambda>p. sameProvider p provider)
            (\<lambda>e. mergeProvider parseFloat e provider) deduplicated
      | None \<Rightarrow> deduplicated @ [provider])"

text \<open>
  The loop \<open>for (const provider of providers)\<close>, from an empty \<open>deduplicated\<close>. The
  offerings of the input are distinct objects: none is listed twice.
\<close>

definition deduplicateProviders ::
  "(string \<Rightarrow> ('v::linorder) option) \<Rightarrow> ModelInformationOfProvider list \<Rightarrow>
   ModelInformationOfProvider list" where
  "deduplicateProviders parseFloat providers =
     foldl (deduplicateProvidersStep parseFloat) [] providers"

text \<open>The bounds the merge policy is stated with.\<close>

definition minKnown :: "int option \<Rightarrow> int option \<Rightarrow> int option" where
  "minKnown a b =
     (case (a, b) of
        (None, _) \<Rightarrow> b
      | (_, None) \<Rightarrow> a
      | (Some x, Some y) \<Rightarrow> Some (min x y))"

definition priceInput :: "ModelInformationOfProvider \<Rightarrow> string option" where
  "priceInput p = (case price p of None \<Rightarrow> None | Some q \<Rightarrow> price_input q)"

definition priceOutput :: "ModelInformationOfProvider \<Rightarrow> string option" where
  "priceOutput p = (case price p of None \<Rightarrow> None | Some q \<Rightarrow> price_output q)"

text \<open>
  The number of a price: \<open>None\<close> when the price is absent, \<open>Some None\<close> when it is
  present and not a number.
\<close>

definition priceNumber ::
  "(string \<Rightarrow> ('v::linorder) option) \<Rightarrow> string option \<Rightarrow> 'v option option" where
  "priceNumber parseFloat s = map_option parseFloat s"

definition maxKnown :: "('v::linorder) option option \<Rightarrow> 'v option option \<Rightarrow> 'v option option" where
  "maxKnown a b =
     (case (a, b) of
        (None, _) \<Rightarrow> b
      | (_, None) \<Rightarrow> a
      | (Some x, Some y) \<Rightarrow> Some (case (x, y) of (Some u, Some v) \<Rightarrow> Some (max u v) | _ \<Rightarrow> None))"

text \<open>Every price an offering carries is a number.\<close>

definition numericPrices ::
  "(string \<Rightarrow> ('v::linorder) option) \<Rightarrow> ModelInformationOfProvider \<Rightarrow> bool" where
  "numericPrices parseFloat p =
     ((case priceInput p of None \<Rightarrow> True | Some s \<Rightarrow> parseFloat s \<noteq> None) \<and>
      (case priceOutput p of None \<Rightarrow> True | Some s \<Rightarrow> parseFloat s \<noteq> None))"

section \<open>Models (sources/types.ts)\<close>

datatype InputModality = In_text | In_image | In_file | In_audio | In_video

datatype OutputModality = Out_text | Out_image | Out_embeddings

text \<open>
  \<open>ModelBase\<close> holds the fields that \<open>ModelInformation\<close> and \<open>ProcessedModelInformation\<close>
  share (the latter is declared as \<open>Omit<ModelInformation, 'description' | 'providers'>\<close>
  with further fields). A value of \<open>defaultParameters\<close> is kept as its JSON text, an object
  as the list of its entries in insertion order.
\<close>

record ModelBase =
  modelId :: string
  aliases :: "string list"
  name :: string
  input_modalities :: "InputModality list"
  output_modalities :: "OutputModality list"
  reasoning :: "bool option"
  openWeights :: "bool option"
  toolCalling :: "bool option"
  knowledge :: "string option"
  parameters :: "string list option"
  defaultParameters :: "(string \<times> string) list option"
  freeProviders :: "ModelInformationOfProvider list option"

record ModelInformation = ModelBase +
  description :: string
  providers :: "ModelInformationOfProvider list"

datatype error =
  TypeError string
| StepError string

section \<open>Identifier helpers (util.ts)\<close>

fun splitOn :: "char \<Rightarrow> string \<Rightarrow> string list" where
  "splitOn c [] = [[]]"
| "splitOn c (x # xs) =
     (if x = c then [] # splitOn c xs
      else (case splitOn c xs of [] \<Rightarrow> [[x]] | part # parts \<Rightarrow> (x # part) # parts))"

definition getModelBaseId :: "string \<Rightarrow> string" where
  "getModelBaseId i =
     (let parts = splitOn (CHR ''/'') i in if length parts \<le> 1 then i else last parts)"

section \<open>Deduplicating models (deduplicateModels)\<close>

definition freeSuffix :: string where
  "freeSuffix = '':free''"

definition makeIdComparable :: "string \<Rightarrow> string" where
  "makeIdComparable i =
     filter (\<lambda>c. c \<in> set ''abcdefghijklmnopqrstuvwxyz0123456789'') (toLowerCase i)"

definition isFreeModelId :: "string \<Rightarrow> bool" where
  "isFreeModelId i = endsWith (toLowerCase i) freeSuffix"

text \<open>
  Lines 12 to 16: a free-tier record loses the suffix of its id, and the shortened id is
  pushed onto its aliases.
\<close>

definition stripFreeSuffix :: "ModelInformation \<Rightarrow> ModelInformation" where
  "stripFreeSuffix model =
     (if isFreeModelId (modelId model)
      then (let newId = take (length (modelId model) - length freeSuffix) (modelId model)
            in model\<lparr>modelId := newId, aliases := aliases model @ [newId]\<rparr>)
      else model)"

text \<open>
  \<open>Array.from(new Set([...a, ...b])).sort((a, b) => b.length - a.length)\<close>: the sort is
  stable, by descending length.
\<close>

definition mergeAliases :: "string list \<Rightarrow> string list \<Rightarrow> string list" where
  "mergeAliases a b = sort_key (\<lambda>s. - int (length s)) (uniq (a @ b))"

text \<open>
  The test \<open>aSet.size !== bSet.size || ![...aSet].every(value => bSet.has(value))\<close>.
\<close>

definition setsDiffer :: "'a list \<Rightarrow> 'a list \<Rightarrow> bool" where
  "setsDiffer a b =
     (length (uniq a) \<noteq> length (uniq b) \<or> \<not> list_all (\<lambda>v. v \<in> set b) (uniq a))"

definition mergeModalities :: "'a list \<Rightarrow> 'a list \<Rightarrow> 'a list" where
  "mergeModalities a b = (if setsDiffer a b then uniq (a @ b) else a)"

text \<open>
  \<open>parameters\<close>: the sets are built from \<open>parameters ?? []\<close>, the union spreads
  \<open>parameters!\<close>, and spreading \<open>undefined\<close> throws a TypeError.
\<close>

definition mergeParameters ::
  "string list option \<Rightarrow> string list option \<Rightarrow> error + string list option" where
  "mergeParameters a b =
     (if setsDiffer (case a of None \<Rightarrow> [] | Some x \<Rightarrow> x) (case b of None \<Rightarrow> [] | Some y \<Rightarrow> y)
      then (case (a, b) of
              (Some x, Some y) \<Rightarrow> Inr (Some (uniq (x @ y)))
            | _ \<Rightarrow> Inl (TypeError ''undefined is not iterable''))
      else Inr a)"

text \<open>
  \<open>{...model.defaultParameters, ...(existingModel.defaultParameters ?? {})}\<close>: the entries
  of the first object, each overwritten in place by an entry of the second with the same
  key, then the remaining entries of the second.
\<close>

definition spreadObjects :: "(string \<times> string) list \<Rightarrow> (string \<times> string) list \<Rightarrow> (string \<times> string) list" where
  "spreadObjects first second = foldl (\<lambda>acc (k, v). AList.update k v acc) first second"

definition mergeDefaultParameters ::
  "(string \<times> string) list option \<Rightarrow> (string \<times> string) list option \<Rightarrow> (string \<times> string) list option" where
  "mergeDefaultParameters existing model =
     (case model of
        None \<Rightarrow> existing
      | Some md \<Rightarrow> Some (spreadObjects md (case existing of None \<Rightarrow> [] | Some ed \<Rightarrow> ed)))"

definition mergeFlag :: "bool option \<Rightarrow> bool option \<Rightarrow> bool option" where
  "mergeFlag existing model =
     (if existing = Some False \<or> model = Some False then Some False
      else if existing = None then model
      else existing)"

text \<open>
  \<open>parseDate\<close> is a parameter: the time value of \<open>new Date(s)\<close>, or \<open>None\<close> for an
  invalid date, with which every comparison is false.
\<close>

definition mergeKnowledge ::
  "(string \<Rightarrow> int option) \<Rightarrow> string option \<Rightarrow> string option \<Rightarrow> string option" where
  "mergeKnowledge parseDate existing model =
     (case (existing, model) of
        (Some e, Some m) \<Rightarrow>
          (if e \<noteq> [] \<and> m \<noteq> []
           then (case (parseDate m, parseDate e) of
                   (Some md, Some ed) \<Rightarrow> if md < ed then Some m else Some e
                 | _ \<Rightarrow> Some e)
           else if e = [] \<and> m \<noteq> [] then Some m
           else Some e)
      | (None, Some m) \<Rightarrow> if m \<noteq> [] then Some m else None
      | (_, None) \<Rightarrow> existing)"

text \<open>
  Lines 26 to 86: \<open>existingModel\<close> after \<open>model\<close> has been merged into it, or the
  TypeError of line 56.
\<close>

definition mergeModel ::
  "(string \<Rightarrow> ('v::linorder) option) \<Rightarrow> (string \<Rightarrow> int option) \<Rightarrow> bool \<Rightarrow>
   ModelInformation \<Rightarrow> ModelInformation \<Rightarrow> error + ModelInformation" where
  "mergeModel parseFloat parseDate isFreeModel existingModel model =
     (case mergeParameters (parameters existingModel) (parameters model) of
        Inl e \<Rightarrow> Inl e
      | Inr ps \<Rightarrow>
          Inr (existingModel\<lparr>
            aliases := mergeAliases (aliases existingModel) (aliases model),
            freeProviders :=
              (if isFreeModel
               then Some (deduplicateProviders parseFloat
                      ((case freeProviders existingModel of None \<Rightarrow> [] | Some f \<Rightarrow> f) @
                       providers model))
               else freeProviders existingModel),
            providers :=
              (if isFreeModel then providers existingModel
               else deduplicateProviders parseFloat (providers existingModel @ providers model)),
            description :=
              (if description existingModel = [] \<and> description model \<noteq> []
               then description model else description existingModel),
            input_modalities :=
              mergeModalities (input_modalities existingModel) (input_modalities model),
            output_modalities :=
              mergeModalities (output_modalities existingModel) (output_modalities model),
            parameters := ps,
            defaultParameters :=
              mergeDefaultParameters (defaultParameters existingModel) (defaultParameters model),
            openWeights := mergeFlag (openWeights existingModel) (openWeights model),
            reasoning := mergeFlag (reasoning existingModel) (reasoning model),
            toolCalling := mergeFlag (toolCalling existingModel) (toolCalling model),
            knowledge := mergeKnowledge parseDate (knowledge existingModel) (knowledge model)\<rparr>))"

text \<open>
  \<open>modelsById\<close> is a \<open>Map\<close>: the list of its entries in insertion order. A key is set
  once; later records of the same key change the stored model in place.
\<close>

type_synonym modelsById = "(string \<times> ModelInformation) list"

definition deduplicateModelsStep ::
  "(string \<Rightarrow> ('v::linorder) option) \<Rightarrow> (string \<Rightarrow> int option) \<Rightarrow> modelsById \<Rightarrow>
   ModelInformation \<Rightarrow> error + modelsById" where
  "deduplicateModelsStep parseFloat parseDate byId model0 =
     (let isFreeModel = isFreeModelId (modelId model0);
          model = stripFreeSuffix model0;
          comparableId = makeIdComparable (modelId model)
      in case map_of byId comparableId of
           None \<Rightarrow> Inr (byId @ [(comparableId, model)])
         | Some existingModel \<Rightarrow>
             (case mergeModel parseFloat parseDate isFreeModel existingModel model of
                Inl e \<Rightarrow> Inl e
              | Inr merged \<Rightarrow> Inr (AList.update comparableId merged byId)))"

fun deduplicateModelsLoop ::
  "(string \<Rightarrow> ('v::linorder) option) \<Rightarrow> (string \<Rightarrow> int option) \<Rightarrow> modelsById \<Rightarrow>
   ModelInformation list \<Rightarrow> error + modelsById" where
  "deduplicateModelsLoop parseFloat parseDate byId [] = Inr byId"
| "deduplicateModelsLoop parseFloat parseDate byId (model # models) =
     (case deduplicateModelsStep parseFloat parseDate byId model of
        Inl e \<Rightarrow> Inl e
      | Inr byId' \<Rightarrow> deduplicateModelsLoop parseFloat parseDate byId' models)"

text \<open>
  The records of the input are distinct objects that share no array and no offering, so
  the in-place changes of the source are changes of the one stored model.
\<close>

definition deduplicateModels ::
  "(string \<Rightarrow> ('v::linorder) option) \<Rightarrow> (string \<Rightarrow> int option) \<Rightarrow>
   ModelInformation list \<Rightarrow> error + ModelInformation list" where
  "deduplicateModels parseFloat parseDate models =
     (case deduplicateModelsLoop parseFloat parseDate [] models of
        Inl e \<Rightarrow> Inl e
      | Inr byId \<Rightarrow> Inr (map snd byId))"

text \<open>The comparison key under which a record is stored or merged.\<close>

definition comparableKey :: "ModelInformation \<Rightarrow> string" where
  "comparableKey model = makeIdComparable (modelId (stripFreeSuffix model))"

text \<open>The number of records of a list that fall under a key.\<close>

definition recordsOfKey :: "string \<Rightarrow> ModelInformation list \<Rightarrow> nat" where
  "recordsOfKey k models = length (filter (\<lambda>m. comparableKey m = k) models)"

definition longestFirst :: "string list \<Rightarrow> bool" where
  "longestFirst xs = sorted_wrt (\<lambda>a b. length b \<le> length a) xs"

text \<open>
  The invariant of \<open>modelsById\<close>: no key twice, and every model stored under the
  comparison key of its own id.
\<close>

definition keysInv :: "modelsById \<Rightarrow> bool" where
  "keysInv byId =
     (distinct (map fst byId) \<and>
      list_all (\<lambda>(k, r). k = makeIdComparable (modelId r)) byId)"

text \<open>A flag that is \<open>false\<close> on \<open>m\<close> is \<open>false\<close> on \<open>r\<close>, for each of the three flags.\<close>

definition falseCarried :: "ModelInformation \<Rightarrow> ModelInformation \<Rightarrow> bool" where
  "falseCarried m r =
     ((openWeights m = Some False \<longrightarrow> openWeights r = Some False) \<and>
      (reasoning m = Some False \<longrightarrow> reasoning r = Some False) \<and>
      (toolCalling m = Some False \<longrightarrow> toolCalling r = Some False))"

section \<open>Processed models (types.ts)\<close>

text \<open>
  The fields of \<open>ProcessedModelProviderInformation\<close> carry the prefix \<open>pp_\<close>, the
  fields that \<open>ProcessedModelInformation\<close> adds to the shared ones the prefix \<open>pm_\<close>
  where the name is taken already, the fields of \<open>ProviderInformation\<close> and of
  \<open>OutputStructure\<close> the prefixes \<open>pi_\<close> and \<open>os_\<close>. A \<open>Record<string, T>\<close> is the
  list of its entries.
\<close>

record ProcessedModelProviderInformation =
  pp_providerId :: string
  pp_contextLength :: "int option"
  pp_inputLimit :: "int option"
  pp_outputLimit :: "int option"
  pp_price :: "(string \<times> Price) list"

record ProcessedModelInformation = ModelBase +
  pm_description :: "(string \<times> string) list option"
  pm_contextLength :: "int option"
  pm_inputLimit :: "int option"
  pm_outputLimit :: "int option"
  deprecated :: "bool option"
  lastImportedAt :: "string option"
  pm_providers :: "ProcessedModelProviderInformation list"

record ProviderInformation =
  pi_id :: string
  pi_name :: string

record OutputStructure =
  os_models :: "ProcessedModelInformation list option"
  os_providers :: "ProviderInformation list"

type_synonym HashFileStructure = "string \<rightharpoonup> string"

section \<open>Processing steps (processing/steps/types.ts)\<close>

text \<open>
  A step is a function of the records it is given, already applied to the run options
  and the cache; its failure (a rejected promise) is an error value. Steps do not change
  the records they are given in place.
\<close>

type_synonym ProcessingStep =
  "ModelInformation \<Rightarrow> ProcessedModelInformation option \<Rightarrow> ProcessedModelInformation \<Rightarrow>
   error + ProcessedModelInformation"

type_synonym BatchProcessingStep =
  "ProcessedModelInformation list \<Rightarrow> error + ProcessedModelInformation list"

type_synonym ProcessingNoChangeStep =
  "ModelInformation \<Rightarrow> ProcessedModelInformation \<Rightarrow> error + ProcessedModelInformation"

type_synonym ProcessingOutputStructureStep =
  "OutputStructure \<Rightarrow> error + OutputStructure"

record Steps =
  newAndChanged :: "ProcessingStep list"
  batch :: "BatchProcessingStep list"
  noChange :: "ProcessingNoChangeStep list"
  outputStructure :: "ProcessingOutputStructureStep list"

text \<open>Every invocation of a step is recorded, with the arguments it received.\<close>

datatype call =
  NewAndChangedCall ModelInformation "ProcessedModelInformation option" ProcessedModelInformation
| NoChangeCall ModelInformation ProcessedModelInformation
| BatchCall "ProcessedModelInformation list"
| OutputStructureCall OutputStructure

section \<open>The processor (processing/processor.ts)\<close>

text \<open>
  What the processor takes from its platform: \<open>hashJson\<close> is
  \<open>hash('sha256', JSON.stringify(\<cdot>))\<close>, \<open>localeCompare\<close> is the comparison of two strings
  (negative, zero or positive), and \<open>now n\<close> is the ISO string of the \<open>n\<close>-th reading
  of the clock.
\<close>

record Runtime =
  hashJson :: "ModelInformation \<Rightarrow> string"
  localeCompare :: "string \<Rightarrow> string \<Rightarrow> int"
  now :: "nat \<Rightarrow> string"

text \<open>
  \<open>Array.prototype.sort\<close> with a comparator is stable: an element is placed before the
  first element the comparator does not put it after.
\<close>

fun insertBy :: "('a \<Rightarrow> 'a \<Rightarrow> int) \<Rightarrow> 'a \<Rightarrow> 'a list \<Rightarrow> 'a list" where
  "insertBy cmp x [] = [x]"
| "insertBy cmp x (y # ys) = (if cmp x y \<le> 0 then x # y # ys else y # insertBy cmp x ys)"

definition sortBy :: "('a \<Rightarrow> 'a \<Rightarrow> int) \<Rightarrow> 'a list \<Rightarrow> 'a list" where
  "sortBy cmp xs = foldr (insertBy cmp) xs []"

definition calculateModelHash :: "Runtime \<Rightarrow> ModelInformation \<Rightarrow> string" where
  "calculateModelHash rt model =
     hashJson rt (model\<lparr>
       aliases := sort (aliases model),
       providers :=
         sortBy (\<lambda>a b. localeCompare rt (providerId a) (providerId b)) (providers model)\<rparr>)"

record ProcessorState =
  hashes :: HashFileStructure
  newModelsList :: "ProcessedModelInformation list"
  calls :: "call list"
  clock :: nat

text \<open>Lines 45 to 49: the first existing model of a missing id is marked.\<close>

definition markDeprecated ::
  "ProcessedModelInformation list \<Rightarrow> string \<Rightarrow> ProcessedModelInformation list" where
  "markDeprecated existingModels missingModelId =
     updateFirst (\<lambda>m. modelId m = missingModelId) (\<lambda>m. m\<lparr>deprecated := Some True\<rparr>)
       existingModels"

text \<open>
  Lines 59 to 64: the spread of the source model, with \<open>description\<close> undefined, the
  time of the import and no providers.
\<close>

definition initialNewModel :: "string \<Rightarrow> ModelInformation \<Rightarrow> ProcessedModelInformation" where
  "initialNewModel time sourceModel =
     \<lparr>modelId = modelId sourceModel, aliases = aliases sourceModel, name = name sourceModel,
      input_modalities = input_modalities sourceModel,
      output_modalities = output_modalities sourceModel,
      reasoning = reasoning sourceModel, openWeights = openWeights sourceModel,
      toolCalling = toolCalling sourceModel, knowledge = knowledge sourceModel,
      parameters = parameters sourceModel, defaultParameters = defaultParameters sourceModel,
      freeProviders = freeProviders sourceModel,
      pm_description = None, pm_contextLength = None, pm_inputLimit = None,
      pm_outputLimit = None, deprecated = None, lastImportedAt = Some time,
      pm_providers = []\<rparr>"

fun runNewAndChanged ::
  "ProcessingStep list \<Rightarrow> ModelInformation \<Rightarrow> ProcessedModelInformation option \<Rightarrow>
   ProcessedModelInformation \<Rightarrow> call list \<Rightarrow> (error + ProcessedModelInformation) \<times> call list" where
  "runNewAndChanged [] sourceModel existingModel newModel cs = (Inr newModel, cs)"
| "runNewAndChanged (step # steps) sourceModel existingModel newModel cs =
     (case step sourceModel existingModel newModel of
        Inl e \<Rightarrow> (Inl e, cs @ [NewAndChangedCall sourceModel existingModel newModel])
      | Inr newModel' \<Rightarrow>
          runNewAndChanged steps sourceModel existingModel newModel'
            (cs @ [NewAndChangedCall sourceModel existingModel newModel]))"

fun runNoChange ::
  "ProcessingNoChangeStep list \<Rightarrow> ModelInformation \<Rightarrow> ProcessedModelInformation \<Rightarrow>
   call list \<Rightarrow> (error + ProcessedModelInformation) \<times> call list" where
  "runNoChange [] sourceModel existingModel cs = (Inr existingModel, cs)"
| "runNoChange (step # steps) sourceModel existingModel cs =
     (case step sourceModel existingModel of
        Inl e \<Rightarrow> (Inl e, cs @ [NoChangeCall sourceModel existingModel])
      | Inr existingModel' \<Rightarrow>
          runNoChange steps sourceModel existingModel' (cs @ [NoChangeCall sourceModel existingModel]))"

fun runBatch ::
  "BatchProcessingStep list \<Rightarrow> ProcessedModelInformation list \<Rightarrow> call list \<Rightarrow>
   (error + ProcessedModelInformation list) \<times> call list" where
  "runBatch [] models cs = (Inr models, cs)"
| "runBatch (batchStep # steps) models cs =
     (case batchStep models of
        Inl e \<Rightarrow> (Inl e, cs @ [BatchCall models])
      | Inr models' \<Rightarrow> runBatch steps models' (cs @ [BatchCall models]))"

fun runOutputStructure ::
  "ProcessingOutputStructureStep list \<Rightarrow> OutputStructure \<Rightarrow> call list \<Rightarrow>
   (error + OutputStructure) \<times> call list" where
  "runOutputStructure [] structure cs = (Inr structure, cs)"
| "runOutputStructure (step # steps) structure cs =
     (case step structure of
        Inl e \<Rightarrow> (Inl e, cs @ [OutputStructureCall structure])
      | Inr structure' \<Rightarrow> runOutputStructure steps structure' (cs @ [OutputStructureCall structure]))"

text \<open>
  Lines 54 to 89, one pass of the loop over the source models. \<open>existingModelIds\<close> holds
  the ids of \<open>existingModels\<close>, so \<open>existingModelIds.includes(sourceModel.id)\<close> holds
  exactly when \<open>existingModels.find\<close> returns a model. The result is the error that
  ended the pass, if any, and the state.
\<close>

text \<open>\<open>hashes[id] ?? '-1'\<close>: the stored hash of an id.\<close>

definition storedHash :: "HashFileStructure \<Rightarrow> string \<Rightarrow> string" where
  "storedHash hs i = (case hs i of None \<Rightarrow> ''-1'' | Some h \<Rightarrow> h)"

definition processModel ::
  "Runtime \<Rightarrow> Steps \<Rightarrow> ProcessedModelInformation list \<Rightarrow> ProcessorState \<Rightarrow>
   ModelInformation \<Rightarrow> error option \<times> ProcessorState" where
  "processModel rt steps existingModels st0 sourceModel =
     (let newHash = calculateModelHash rt sourceModel;
          existingHash = storedHash (hashes st0) (modelId sourceModel);
          newModel = initialNewModel (now rt (clock st0)) sourceModel;
          st = st0\<lparr>clock := clock st0 + 1\<rparr>;
          existingModel = find (\<lambda>m. modelId m = modelId sourceModel) existingModels
      in if existingModel \<noteq> None \<and> existingHash = newHash
         then (case existingModel of
                 Some existing \<Rightarrow>
                   (if length (noChange steps) > 0
                    then (case runNoChange (noChange steps) sourceModel existing (calls st) of
                            (Inl e, cs) \<Rightarrow> (Some e, st\<lparr>calls := cs\<rparr>)
                          | (Inr existing', cs) \<Rightarrow>
                              (None, st\<lparr>newModelsList := newModelsList st @ [existing'],
                                         calls := cs\<rparr>))
                    else (None, st))
               | None \<Rightarrow> (None, st))
         else (let st1 = st\<lparr>hashes := (hashes st)(modelId sourceModel \<mapsto> newHash)\<rparr>
               in case runNewAndChanged (newAndChanged steps) sourceModel existingModel newModel
                         (calls st1) of
                    (Inl e, cs) \<Rightarrow> (Some e, st1\<lparr>calls := cs\<rparr>)
                  | (Inr newModel', cs) \<Rightarrow>
                      (None, st1\<lparr>newModelsList := newModelsList st1 @ [newModel'], calls := cs\<rparr>)))"

fun processLoop ::
  "Runtime \<Rightarrow> Steps \<Rightarrow> ProcessedModelInformation list \<Rightarrow> ProcessorState \<Rightarrow>
   ModelInformation list \<Rightarrow> error option \<times> ProcessorState" where
  "processLoop rt steps existingModels st [] = (None, st)"
| "processLoop rt steps existingModels st (sourceModel # sourceModels) =
     (case processModel rt steps existingModels st sourceModel of
        (Some e, st') \<Rightarrow> (Some e, st')
      | (None, st') \<Rightarrow> processLoop rt steps existingModels st' sourceModels)"

text \<open>Lines 98 to 102: an existing model is pushed unless the list has a model of its id.\<close>

definition addBack ::
  "ProcessedModelInformation list \<Rightarrow> ProcessedModelInformation list \<Rightarrow>
   ProcessedModelInformation list" where
  "addBack existingModels models =
     foldl (\<lambda>list existingModel.
              if find (\<lambda>m. modelId m = modelId existingModel) list = None
              then list @ [existingModel] else list)
       models existingModels"

text \<open>\<open>structure.models ?? []\<close>: the previously persisted catalog.\<close>

definition persistedModels :: "OutputStructure \<Rightarrow> ProcessedModelInformation list" where
  "persistedModels structure = (case os_models structure of None \<Rightarrow> [] | Some ms \<Rightarrow> ms)"

text \<open>Lines 34 to 36: the ids of the catalog that no source model has.\<close>

definition missingModelIds ::
  "ModelInformation list \<Rightarrow> ProcessedModelInformation list \<Rightarrow> string list" where
  "missingModelIds sourceModels existingModels =
     filter (\<lambda>i. i \<notin> set (map modelId sourceModels)) (map modelId existingModels)"

text \<open>The loop of lines 45 to 49 over the missing ids.\<close>

definition markMissing ::
  "ModelInformation list \<Rightarrow> ProcessedModelInformation list \<Rightarrow> ProcessedModelInformation list" where
  "markMissing sourceModels existingModels =
     foldl markDeprecated existingModels (missingModelIds sourceModels existingModels)"

definition initialState :: "HashFileStructure \<Rightarrow> ProcessorState" where
  "initialState hashes0 = \<lparr>hashes = hashes0, newModelsList = [], calls = [], clock = 0\<rparr>"

text \<open>
  The processor returns the structure, or the error of the step that failed, together
  with the hashes it has written and the calls it has made.
\<close>

definition processor ::
  "Runtime \<Rightarrow> ModelInformation list \<Rightarrow> OutputStructure \<Rightarrow> HashFileStructure \<Rightarrow> Steps \<Rightarrow>
   (error + OutputStructure) \<times> ProcessorState" where
  "processor rt sourceModels structure hashes0 steps =
     (let existingModels = markMissing sourceModels (persistedModels structure)
      in case processLoop rt steps existingModels (initialState hashes0) sourceModels of
           (Some e, st) \<Rightarrow> (Inl e, st)
         | (None, st) \<Rightarrow>
             (case runBatch (batch steps) (newModelsList st) (calls st) of
                (Inl e, cs) \<Rightarrow> (Inl e, st\<lparr>calls := cs\<rparr>)
              | (Inr batched, cs) \<Rightarrow>
                  (let assembled =
                         sortBy (\<lambda>a b. localeCompare rt (modelId a) (modelId b))
                           (addBack existingModels batched);
                       st' = st\<lparr>newModelsList := assembled\<rparr>
                   in case runOutputStructure (outputStructure steps)
                             (structure\<lparr>os_models := Some assembled\<rparr>) cs of
                        (Inl e, cs') \<Rightarrow> (Inl e, st'\<lparr>calls := cs'\<rparr>)
                      | (Inr structure', cs') \<Rightarrow> (Inr structure', st'\<lparr>calls := cs'\<rparr>))))"

text \<open>The ids of the models that a per-model or batch step has been given.\<close>

fun enrichedIds :: "call \<Rightarrow> string list" where
  "enrichedIds (NewAndChangedCall sourceModel existingModel newModel) =
     modelId sourceModel # modelId newModel #
       (case existingModel of None \<Rightarrow> [] | Some e \<Rightarrow> [modelId e])"
| "enrichedIds (NoChangeCall sourceModel existingModel) =
     [modelId sourceModel, modelId existingModel]"
| "enrichedIds (BatchCall models) = map modelId models"
| "enrichedIds (OutputStructureCall structure) = []"

text \<open>The ids of the source models for which a newAndChanged step has been invoked.\<close>

fun newAndChangedSources :: "call list \<Rightarrow> string list" where
  "newAndChangedSources [] = []"
| "newAndChangedSources (NewAndChangedCall sourceModel existingModel newModel # cs) =
     modelId sourceModel # newAndChangedSources cs"
| "newAndChangedSources (c # cs) = newAndChangedSources cs"

text \<open>The lists of models that the batch steps have been given.\<close>

fun batchArguments :: "call list \<Rightarrow> ProcessedModelInformation list list" where
  "batchArguments [] = []"
| "batchArguments (BatchCall models # cs) = models # batchArguments cs"
| "batchArguments (c # cs) = batchArguments cs"

text \<open>
  The contract of the steps towards the processor: a per-model step returns a record of
  the id it was given, a batch step returns no record of an id it was not given, and an
  output-structure step leaves the list of models as it is.
\<close>

definition stepsKeepIds :: "Steps \<Rightarrow> bool" where
  "stepsKeepIds steps =
     ((\<forall>step\<in>set (newAndChanged steps). \<forall>src ex nm r.
          step src ex nm = Inr r \<longrightarrow> modelId r = modelId nm) \<and>
      (\<forall>step\<in>set (noChange steps). \<forall>src ex r.
          step src ex = Inr r \<longrightarrow> modelId r = modelId ex) \<and>
      (\<forall>step\<in>set (batch steps). \<forall>ms rs.
          step ms = Inr rs \<longrightarrow> set (map modelId rs) \<subseteq> set (map modelId ms)) \<and>
      (\<forall>step\<in>set (outputStructure steps). \<forall>s s'.
          step s = Inr s' \<longrightarrow> os_models s' = os_models s))"

section \<open>Example data\<close>

subsection \<open>Offerings\<close>

definition exampleParseFloat :: "string \<Rightarrow> int option" where
  "exampleParseFloat s =
     (if s = ''0'' then Some 0 else if s = ''1.00'' then Some 1
      else if s = ''2.00'' then Some 2 else if s = ''3.00'' then Some 3 else None)"

definition offeringA :: ModelInformationOfProvider where
  "offeringA =
     \<lparr>providerId = ''a'', providerName = Some ''Provider'', contextLength = Some 8000,
      inputLimit = None, outputLimit = Some 4096,
      price = Some \<lparr>currency = ''usd'', price_input = Some ''1.00'', price_output = None\<rparr>\<rparr>"

definition offeringAB :: ModelInformationOfProvider where
  "offeringAB =
     \<lparr>providerId = ''ab'', providerName = Some ''Provider Inc'', contextLength = Some 4000,
      inputLimit = Some 2000, outputLimit = None,
      price = Some \<lparr>currency = ''usd'', price_input = Some ''2.00'', price_output = Some ''3.00''\<rparr>\<rparr>"

definition offeringMerged :: ModelInformationOfProvider where
  "offeringMerged =
     \<lparr>providerId = ''a'', providerName = Some ''Provider Inc'', contextLength = Some 4000,
      inputLimit = Some 2000, outputLimit = Some 4096,
      price = Some \<lparr>currency = ''usd'', price_input = Some ''2.00'', price_output = Some ''3.00''\<rparr>\<rparr>"

definition offeringNotANumber :: ModelInformationOfProvider where
  "offeringNotANumber =
     \<lparr>providerId = ''a'', providerName = Some ''Provider'', contextLength = None,
      inputLimit = None, outputLimit = None,
      price = Some \<lparr>currency = ''usd'', price_input = Some ''n/a'', price_output = None\<rparr>\<rparr>"

subsection \<open>Models\<close>

definition exampleParseDate :: "string \<Rightarrow> int option" where
  "exampleParseDate s =
     (if s = ''2023-01-01'' then Some 19358 else if s = ''2024-06-01'' then Some 19875 else None)"

definition exampleModel :: "string \<Rightarrow> string list \<Rightarrow> ModelInformationOfProvider list \<Rightarrow> ModelInformation" where
  "exampleModel i als offers =
     \<lparr>modelId = i, aliases = als, name = ''Example'', input_modalities = [In_text],
      output_modalities = [Out_text], reasoning = None, openWeights = None, toolCalling = None,
      knowledge = None, parameters = Some [], defaultParameters = None, freeProviders = None,
      description = [], providers = offers\<rparr>"

definition flagFirst :: ModelInformation where
  "flagFirst = (exampleModel ''m-1'' [''m-1''] [offeringA])\<lparr>reasoning := Some True\<rparr>"

definition flagSecond :: ModelInformation where
  "flagSecond =
     (exampleModel ''M1'' [''M1''] [offeringAB])\<lparr>reasoning := Some False, toolCalling := Some True\<rparr>"

definition flagThird :: ModelInformation where
  "flagThird =
     (exampleModel ''m1:free'' [''m1:free''] [offeringA])\<lparr>reasoning := Some True,
        openWeights := Some False\<rparr>"

definition flagResult :: ModelInformation where
  "flagResult =
     (exampleModel ''m-1'' [''m1:free'', ''m-1'', ''M1'', ''m1''] [offeringMerged])\<lparr>
        reasoning := Some False, openWeights := Some False, toolCalling := Some True,
        freeProviders := Some [offeringA]\<rparr>"

definition offeringFree :: ModelInformationOfProvider where
  "offeringFree =
     \<lparr>providerId = ''a'', providerName = None, contextLength = Some 8000,
      inputLimit = None, outputLimit = None,
      price = Some \<lparr>currency = ''usd'', price_input = Some ''0'', price_output = Some ''0''\<rparr>\<rparr>"

definition paidRecord :: ModelInformation where
  "paidRecord = exampleModel ''foo'' [''foo''] [offeringA]"

definition freeRecord :: ModelInformation where
  "freeRecord = exampleModel ''foo:free'' [''foo:free''] [offeringFree]"

definition paidAndFree :: ModelInformation where
  "paidAndFree =
     (exampleModel ''foo'' [''foo:free'', ''foo''] [offeringA])\<lparr>freeProviders := Some [offeringFree]\<rparr>"

definition freeAlone :: ModelInformation where
  "freeAlone = exampleModel ''foo'' [''foo:free'', ''foo''] [offeringFree]"

definition upperRecord :: ModelInformation where
  "upperRecord = exampleModel ''Foo'' [''Foo''] [offeringA]"

definition lowerRecord :: ModelInformation where
  "lowerRecord = exampleModel ''foo'' [''foo''] [offeringAB]"

definition upperAndLower :: ModelInformation where
  "upperAndLower = exampleModel ''Foo'' [''Foo'', ''foo''] [offeringMerged]"

definition slugRecord :: ModelInformation where
  "slugRecord = exampleModel ''foo:free'' [''vendor/foo:free'', ''foo:free'', ''foo'', ''f''] [offeringFree]"

definition slugResult :: ModelInformation where
  "slugResult = exampleModel ''foo'' [''vendor/foo:free'', ''foo:free'', ''foo'', ''f'', ''foo''] [offeringFree]"

definition doubleFree :: ModelInformation where
  "doubleFree = exampleModel ''a:free:free'' [''a:free:free''] [offeringFree]"

definition doubleFreeOnce :: ModelInformation where
  "doubleFreeOnce = exampleModel ''a:free'' [''a:free:free'', ''a:free''] [offeringFree]"

definition doubleFreeTwice :: ModelInformation where
  "doubleFreeTwice = exampleModel ''a'' [''a:free:free'', ''a:free'', ''a''] [offeringFree]"

subsection \<open>A run of the processor\<close>

definition exampleRuntime :: Runtime where
  "exampleRuntime =
     \<lparr>hashJson = (\<lambda>m. modelId m @ ''|'' @ concat (aliases m) @ ''|'' @ description m),
      localeCompare = (\<lambda>a b. if a < b then - 1 else if a = b then 0 else 1),
      now = (\<lambda>n. ''2025-01-01T00:00:00.000Z'')\<rparr>"

definition exampleProcessed :: "string \<Rightarrow> bool option \<Rightarrow> ProcessedModelInformation" where
  "exampleProcessed i dep =
     \<lparr>modelId = i, aliases = [i], name = ''Example'', input_modalities = [In_text],
      output_modalities = [Out_text], reasoning = None, openWeights = None, toolCalling = None,
      knowledge = None, parameters = Some [], defaultParameters = None, freeProviders = None,
      pm_description = Some [(''en'', ''An old description'')], pm_contextLength = None,
      pm_inputLimit = None, pm_outputLimit = None, deprecated = dep,
      lastImportedAt = Some ''2024-01-01T00:00:00.000Z'', pm_providers = []\<rparr>"

definition persistedKept :: ProcessedModelInformation where
  "persistedKept = exampleProcessed ''kept'' (Some True)"

definition persistedGone :: ProcessedModelInformation where
  "persistedGone = exampleProcessed ''gone'' None"

definition sourceKept :: ModelInformation where
  "sourceKept = exampleModel ''kept'' [''kept''] [offeringA]"

definition sourceNew :: ModelInformation where
  "sourceNew = exampleModel ''new'' [''new''] [offeringAB]"

definition exampleStructure :: OutputStructure where
  "exampleStructure = \<lparr>os_models = Some [persistedKept, persistedGone], os_providers = []\<rparr>"

definition exampleHashes :: HashFileStructure where
  "exampleHashes = [''kept'' \<mapsto> ''kept|kept|'', ''gone'' \<mapsto> ''gone|gone|'']"

definition describeStep :: ProcessingStep where
  "describeStep sourceModel existingModel newModel =
     Inr (newModel\<lparr>pm_description := Some [(''en'', ''A model'')]\<rparr>)"

definition exampleSteps :: Steps where
  "exampleSteps =
     \<lparr>newAndChanged = [describeStep], batch = [Inr], noChange = [], outputStructure = [Inr]\<rparr>"

definition lightSteps :: Steps where
  "lightSteps =
     \<lparr>newAndChanged = [describeStep], batch = [Inr],
      noChange = [\<lambda>sourceModel existingModel. Inr existingModel], outputStructure = [Inr]\<rparr>"

definition processedNew :: ProcessedModelInformation where
  "processedNew =
     (initialNewModel ''2025-01-01T00:00:00.000Z'' sourceNew)\<lparr>
        pm_description := Some [(''en'', ''A model'')]\<rparr>"

definition exampleOutput :: OutputStructure where
  "exampleOutput =
     \<lparr>os_models = Some [persistedGone\<lparr>deprecated := Some True\<rparr>, persistedKept, processedNew],
      os_providers = []\<rparr>"

section \<open>Properties of the offering merge\<close>

lemma mergeLimit_minKnown: "mergeLimit a b = minKnown a b"
  by (auto simp: mergeLimit_def minKnown_def min_def split: option.splits)

lemma mergePriceValue_maxKnown:
  assumes "case a of None \<Rightarrow> True | Some s \<Rightarrow> pf s \<noteq> None"
    and "case b of None \<Rightarrow> True | Some s \<Rightarrow> pf s \<noteq> None"
  shows "priceNumber pf (mergePriceValue pf a b) = maxKnown (priceNumber pf a) (priceNumber pf b)"
  using assms
  by (auto simp: mergePriceValue_def maxKnown_def priceNumber_def floatGreater_def max_def
      split: option.splits)

lemma mergePriceValue_absent:
  "mergePriceValue pf a None = a" "mergePriceValue pf None b = b"
  by (auto simp: mergePriceValue_def split: option.splits)

lemma priceInput_mergeProvider:
  "priceInput (mergeProvider pf e p) = mergePriceValue pf (priceInput e) (priceInput p)"
  by (auto simp: priceInput_def mergeProvider_def mergePrice_def mergePriceValue_def Let_def
      split: option.splits)

lemma priceOutput_mergeProvider:
  "priceOutput (mergeProvider pf e p) = mergePriceValue pf (priceOutput e) (priceOutput p)"
  by (auto simp: priceOutput_def mergeProvider_def mergePrice_def mergePriceValue_def Let_def
      split: option.splits)

lemma find_Some_split:
  "find P xs = Some x \<Longrightarrow>
     \<exists>pre post. xs = pre @ x # post \<and> list_all (\<lambda>q. \<not> P q) pre \<and> P x"
proof (induction xs)
  case Nil
  then show ?case by simp
next
  case (Cons a xs)
  show ?case
  proof (cases "P a")
    case True
    with Cons.prems have "a = x" by simp
    with True have "a # xs = [] @ x # xs \<and> list_all (\<lambda>q. \<not> P q) [] \<and> P x" by simp
    then show ?thesis by blast
  next
    case False
    with Cons.prems have "find P xs = Some x" by simp
    from Cons.IH[OF this] obtain pre post where
      "xs = pre @ x # post" "list_all (\<lambda>q. \<not> P q) pre" "P x" by blast
    with False have "a # xs = (a # pre) @ x # post \<and> list_all (\<lambda>q. \<not> P q) (a # pre) \<and> P x"
      by simp
    then show ?thesis by blast
  qed
qed

lemma updateFirst_split:
  "list_all (\<lambda>q. \<not> P q) pre \<Longrightarrow> P x \<Longrightarrow> updateFirst P f (pre @ x # post) = pre @ f x # post"
  by (induction pre) auto

lemma deduplicateProviders_snoc:
  "deduplicateProviders pf (xs @ [p]) = deduplicateProvidersStep pf (deduplicateProviders pf xs) p"
  by (simp add: deduplicateProviders_def)

lemma sameProvider_sym: "sameProvider a b = sameProvider b a"
  by (auto simp: sameProvider_def)

lemma minKnown_commute: "minKnown a b = minKnown b a"
  by (auto simp: minKnown_def min_def split: option.splits)

lemma maxKnown_commute: "maxKnown a b = maxKnown b a"
  by (auto simp: maxKnown_def max_def split: option.splits)

lemma numericPrices_input:
  "numericPrices pf p \<Longrightarrow> (case priceInput p of None \<Rightarrow> True | Some s \<Rightarrow> pf s \<noteq> None)"
  by (simp add: numericPrices_def)

lemma numericPrices_output:
  "numericPrices pf p \<Longrightarrow> (case priceOutput p of None \<Rightarrow> True | Some s \<Rightarrow> pf s \<noteq> None)"
  by (simp add: numericPrices_def)

lemma mergePriceValue_cases:
  "mergePriceValue pf a b = a \<or> mergePriceValue pf a b = b"
  by (auto simp: mergePriceValue_def split: option.splits)

lemma deduplicateProviders_pair:
  assumes "sameProvider a b"
  shows "deduplicateProviders pf [a, b] = [mergeProvider pf a b]"
  using assms by (simp add: deduplicateProviders_def deduplicateProvidersStep_def)

lemma example_sameProvider: "sameProvider offeringA offeringAB"
  by (simp add: sameProvider_def offeringA_def offeringAB_def nameStartsWith_def startsWith_def)

lemma example_numericPrices:
  "numericPrices exampleParseFloat offeringA" "numericPrices exampleParseFloat offeringAB"
  by (simp_all add: numericPrices_def priceInput_def priceOutput_def offeringA_def offeringAB_def
      exampleParseFloat_def)

lemma example_single: "deduplicateProviders exampleParseFloat [offeringA] = [offeringA]"
  by (simp add: deduplicateProviders_def deduplicateProvidersStep_def)

lemma example_merge: "mergeProvider exampleParseFloat offeringA offeringAB = offeringMerged"
  by (simp add: mergeProvider_def offeringA_def offeringAB_def offeringMerged_def
      mergeProviderName_def truthy_def mergeLimit_def mergePrice_def mergePriceValue_def
      floatGreater_def exampleParseFloat_def)

section \<open>The offering merge: limits and prices\<close>

text \<open>
  C3. Whenever \<open>deduplicateProviders\<close> merges an incoming offering into an existing one
  (the first entry of the list built so far that \<open>find\<close> accepts), that entry is replaced
  in place by an offering whose \<open>contextLength\<close>, \<open>inputLimit\<close> and \<open>outputLimit\<close> are
  each the minimum of the values known on the two offerings, and whose \<open>price.input\<close> and
  \<open>price.output\<close> are each one of the two price strings, the number of which is the
  maximum of the known numbers (for price strings that \<open>parseFloat\<close> reads as numbers);
  an absent value never replaces a known one.
\<close>

theorem C3_merge_min_limits_max_prices:
  assumes found: "find (\<lambda>p. sameProvider p provider) (deduplicateProviders pf xs) = Some existing"
  shows "\<exists>pre post merged.
           deduplicateProviders pf xs = pre @ existing # post \<and>
           deduplicateProviders pf (xs @ [provider]) = pre @ merged # post \<and>
           contextLength merged = minKnown (contextLength existing) (contextLength provider) \<and>
           inputLimit merged = minKnown (inputLimit existing) (inputLimit provider) \<and>
           outputLimit merged = minKnown (outputLimit existing) (outputLimit provider) \<and>
           (priceInput merged = priceInput existing \<or> priceInput merged = priceInput provider) \<and>
           (priceOutput merged = priceOutput existing \<or> priceOutput merged = priceOutput provider) \<and>
           (priceInput provider = None \<longrightarrow> priceInput merged = priceInput existing) \<and>
           (priceOutput provider = None \<longrightarrow> priceOutput merged = priceOutput existing) \<and>
           (priceInput existing = None \<longrightarrow> priceInput merged = priceInput provider) \<and>
           (priceOutput existing = None \<longrightarrow> priceOutput merged = priceOutput provider) \<and>
           (numericPrices pf existing \<and> numericPrices pf provider \<longrightarrow>
              priceNumber pf (priceInput merged) =
                maxKnown (priceNumber pf (priceInput existing)) (priceNumber pf (priceInput provider)) \<and>
              priceNumber pf (priceOutput merged) =
                maxKnown (priceNumber pf (priceOutput existing)) (priceNumber pf (priceOutput provider)))"
proof -
  let ?P = "\<lambda>p. sameProvider p provider"
  let ?m = "mergeProvider pf existing provider"
  from find_Some_split[OF found] obtain pre post where
    split: "deduplicateProviders pf xs = pre @ existing # post"
    and pre: "list_all (\<lambda>q. \<not> ?P q) pre" and ex: "?P existing"
    by blast
  have "deduplicateProviders pf (xs @ [provider]) =
          updateFirst ?P (\<lambda>e. mergeProvider pf e provider) (deduplicateProviders pf xs)"
    using found by (simp add: deduplicateProviders_snoc deduplicateProvidersStep_def)
  also have "\<dots> = pre @ ?m # post"
    unfolding split using pre ex by (rule updateFirst_split)
  finally have res: "deduplicateProviders pf (xs @ [provider]) = pre @ ?m # post" .
  have limits:
    "contextLength ?m = minKnown (contextLength existing) (contextLength provider)"
    "inputLimit ?m = minKnown (inputLimit existing) (inputLimit provider)"
    "outputLimit ?m = minKnown (outputLimit existing) (outputLimit provider)"
    by (simp_all add: mergeProvider_def mergeLimit_minKnown)
  have strings:
    "priceInput ?m = priceInput existing \<or> priceInput ?m = priceInput provider"
    "priceOutput ?m = priceOutput existing \<or> priceOutput ?m = priceOutput provider"
    unfolding priceInput_mergeProvider priceOutput_mergeProvider
    by (rule mergePriceValue_cases)+
  have absent:
    "priceInput provider = None \<longrightarrow> priceInput ?m = priceInput existing"
    "priceOutput provider = None \<longrightarrow> priceOutput ?m = priceOutput existing"
    "priceInput existing = None \<longrightarrow> priceInput ?m = priceInput provider"
    "priceOutput existing = None \<longrightarrow> priceOutput ?m = priceOutput provider"
    by (simp_all add: priceInput_mergeProvider priceOutput_mergeProvider mergePriceValue_absent)
  have numbers:
    "numericPrices pf existing \<and> numericPrices pf provider \<longrightarrow>
       priceNumber pf (priceInput ?m) =
         maxKnown (priceNumber pf (priceInput existing)) (priceNumber pf (priceInput provider)) \<and>
       priceNumber pf (priceOutput ?m) =
         maxKnown (priceNumber pf (priceOutput existing)) (priceNumber pf (priceOutput provider))"
    unfolding priceInput_mergeProvider priceOutput_mergeProvider
    by (intro impI conjI mergePriceValue_maxKnown numericPrices_input numericPrices_output) simp_all
  show ?thesis
    apply (rule exI[of _ pre], rule exI[of _ post], rule exI[of _ ?m])
    using split res limits strings absent numbers by (intro conjI)
qed

theorem C3_merge_min_limits_max_prices_witness:
  "find (\<lambda>p. sameProvider p offeringAB) (deduplicateProviders exampleParseFloat [offeringA]) =
     Some offeringA \<and>
   deduplicateProviders exampleParseFloat [offeringA, offeringAB] = [offeringMerged] \<and>
   contextLength offeringMerged = Some 4000 \<and>
   priceNumber exampleParseFloat (priceInput offeringMerged) = Some (Some 2)"
proof -
  have found: "find (\<lambda>p. sameProvider p offeringAB)
      (deduplicateProviders exampleParseFloat [offeringA]) = Some offeringA"
    by (simp add: example_single example_sameProvider)
  from C3_merge_min_limits_max_prices[OF found] obtain pre post merged where
    a: "deduplicateProviders exampleParseFloat [offeringA] = pre @ offeringA # post"
    and b: "deduplicateProviders exampleParseFloat ([offeringA] @ [offeringAB]) = pre @ merged # post"
    and c: "contextLength merged = minKnown (contextLength offeringA) (contextLength offeringAB)"
    and d: "numericPrices exampleParseFloat offeringA \<and> numericPrices exampleParseFloat offeringAB \<longrightarrow>
              priceNumber exampleParseFloat (priceInput merged) =
                maxKnown (priceNumber exampleParseFloat (priceInput offeringA))
                  (priceNumber exampleParseFloat (priceInput offeringAB)) \<and>
              priceNumber exampleParseFloat (priceOutput merged) =
                maxKnown (priceNumber exampleParseFloat (priceOutput offeringA))
                  (priceNumber exampleParseFloat (priceOutput offeringAB))"
    by blast
  from a have pp: "pre = [] \<and> post = []"
    by (simp add: example_single Cons_eq_append_conv append_eq_Cons_conv)
  have direct: "deduplicateProviders exampleParseFloat [offeringA, offeringAB] = [offeringMerged]"
    by (simp add: deduplicateProviders_pair[OF example_sameProvider] example_merge)
  with b pp have m: "merged = offeringMerged" by simp
  from c m have "contextLength offeringMerged = Some 4000"
    by (simp add: minKnown_def offeringA_def offeringAB_def)
  moreover from d m example_numericPrices
  have "priceNumber exampleParseFloat (priceInput offeringMerged) = Some (Some 2)"
    by (simp add: maxKnown_def priceNumber_def priceInput_def offeringA_def offeringAB_def
        exampleParseFloat_def)
  ultimately show ?thesis using found direct by simp
qed

text \<open>
  C9. For two mergeable offerings \<open>A\<close> and \<open>B\<close> whose prices are numbers, merging
  \<open>[A, B]\<close> and merging \<open>[B, A]\<close> each give a single offering, and the two have the same
  \<open>contextLength\<close>, \<open>inputLimit\<close> and \<open>outputLimit\<close> (the minimum of the known values)
  and the same numbers of \<open>price.input\<close> and \<open>price.output\<close> (the maximum of the known
  values).
\<close>

theorem C9_merge_commutes_on_bounds:
  assumes same: "sameProvider A B"
    and numA: "numericPrices pf A" and numB: "numericPrices pf B"
  shows "\<exists>ab ba.
           deduplicateProviders pf [A, B] = [ab] \<and>
           deduplicateProviders pf [B, A] = [ba] \<and>
           contextLength ab = contextLength ba \<and>
           contextLength ab = minKnown (contextLength A) (contextLength B) \<and>
           inputLimit ab = inputLimit ba \<and>
           inputLimit ab = minKnown (inputLimit A) (inputLimit B) \<and>
           outputLimit ab = outputLimit ba \<and>
           outputLimit ab = minKnown (outputLimit A) (outputLimit B) \<and>
           priceNumber pf (priceInput ab) = priceNumber pf (priceInput ba) \<and>
           priceNumber pf (priceInput ab) =
             maxKnown (priceNumber pf (priceInput A)) (priceNumber pf (priceInput B)) \<and>
           priceNumber pf (priceOutput ab) = priceNumber pf (priceOutput ba) \<and>
           priceNumber pf (priceOutput ab) =
             maxKnown (priceNumber pf (priceOutput A)) (priceNumber pf (priceOutput B))"
proof -
  let ?ab = "mergeProvider pf A B" and ?ba = "mergeProvider pf B A"
  from same have same': "sameProvider B A" by (simp add: sameProvider_sym)
  have lists: "deduplicateProviders pf [A, B] = [?ab]" "deduplicateProviders pf [B, A] = [?ba]"
    using same same' by (simp_all add: deduplicateProviders_pair)
  have lim_ab:
    "contextLength ?ab = minKnown (contextLength A) (contextLength B)"
    "inputLimit ?ab = minKnown (inputLimit A) (inputLimit B)"
    "outputLimit ?ab = minKnown (outputLimit A) (outputLimit B)"
    by (simp_all add: mergeProvider_def mergeLimit_minKnown)
  have lim_ba:
    "contextLength ?ba = minKnown (contextLength A) (contextLength B)"
    "inputLimit ?ba = minKnown (inputLimit A) (inputLimit B)"
    "outputLimit ?ba = minKnown (outputLimit A) (outputLimit B)"
    by (simp_all add: mergeProvider_def mergeLimit_minKnown minKnown_commute)
  have in_ab: "priceNumber pf (priceInput ?ab) =
      maxKnown (priceNumber pf (priceInput A)) (priceNumber pf (priceInput B))"
    unfolding priceInput_mergeProvider
    by (rule mergePriceValue_maxKnown[OF numericPrices_input[OF numA] numericPrices_input[OF numB]])
  have in_ba: "priceNumber pf (priceInput ?ba) =
      maxKnown (priceNumber pf (priceInput B)) (priceNumber pf (priceInput A))"
    unfolding priceInput_mergeProvider
    by (rule mergePriceValue_maxKnown[OF numericPrices_input[OF numB] numericPrices_input[OF numA]])
  have out_ab: "priceNumber pf (priceOutput ?ab) =
      maxKnown (priceNumber pf (priceOutput A)) (priceNumber pf (priceOutput B))"
    unfolding priceOutput_mergeProvider
    by (rule mergePriceValue_maxKnown[OF numericPrices_output[OF numA] numericPrices_output[OF numB]])
  have out_ba: "priceNumber pf (priceOutput ?ba) =
      maxKnown (priceNumber pf (priceOutput B)) (priceNumber pf (priceOutput A))"
    unfolding priceOutput_mergeProvider
    by (rule mergePriceValue_maxKnown[OF numericPrices_output[OF numB] numericPrices_output[OF numA]])
  have "priceNumber pf (priceInput ?ab) = priceNumber pf (priceInput ?ba)"
    using in_ab in_ba by (simp add: maxKnown_commute)
  moreover have "priceNumber pf (priceOutput ?ab) = priceNumber pf (priceOutput ?ba)"
    using out_ab out_ba by (simp add: maxKnown_commute)
  ultimately show ?thesis
    using lists lim_ab lim_ba in_ab out_ab by simp
qed

theorem C9_merge_commutes_on_bounds_witness:
  "sameProvider offeringA offeringAB \<and>
   numericPrices exampleParseFloat offeringA \<and> numericPrices exampleParseFloat offeringAB \<and>
   (\<exists>ab ba.
      deduplicateProviders exampleParseFloat [offeringA, offeringAB] = [ab] \<and>
      deduplicateProviders exampleParseFloat [offeringAB, offeringA] = [ba] \<and>
      providerName ab = Some ''Provider Inc'' \<and>
      contextLength ab = contextLength ba \<and> contextLength ab = Some 4000 \<and>
      priceNumber exampleParseFloat (priceInput ab) = priceNumber exampleParseFloat (priceInput ba) \<and>
      priceNumber exampleParseFloat (priceInput ab) = Some (Some 2))"
proof -
  from C9_merge_commutes_on_bounds[OF example_sameProvider example_numericPrices]
  obtain ab ba where
    l1: "deduplicateProviders exampleParseFloat [offeringA, offeringAB] = [ab]"
    and l2: "deduplicateProviders exampleParseFloat [offeringAB, offeringA] = [ba]"
    and c: "contextLength ab = contextLength ba"
    and p: "priceNumber exampleParseFloat (priceInput ab) = priceNumber exampleParseFloat (priceInput ba)"
    by blast
  from l1 have ab: "ab = offeringMerged"
    by (simp add: deduplicateProviders_pair[OF example_sameProvider] example_merge)
  have "providerName ab = Some ''Provider Inc''" "contextLength ab = Some 4000"
    "priceNumber exampleParseFloat (priceInput ab) = Some (Some 2)"
    unfolding ab
    by (simp_all add: offeringMerged_def priceNumber_def priceInput_def exampleParseFloat_def)
  with l1 l2 c p example_sameProvider example_numericPrices show ?thesis by blast
qed

text \<open>
  A price string that \<open>parseFloat\<close> does not read as a number compares false with every
  price: as the existing price it is kept, as the incoming price it is dropped.
\<close>

lemma non_numeric_price_example:
  "sameProvider offeringNotANumber offeringAB \<and>
   exampleParseFloat ''n/a'' = None \<and>
   priceInput (mergeProvider exampleParseFloat offeringNotANumber offeringAB) = Some ''n/a'' \<and>
   priceInput (mergeProvider exampleParseFloat offeringAB offeringNotANumber) = Some ''2.00''"
  by code_simp

section \<open>Properties of the model deduplication\<close>

lemma stripFreeSuffix_fields:
  "openWeights (stripFreeSuffix m) = openWeights m"
  "reasoning (stripFreeSuffix m) = reasoning m"
  "toolCalling (stripFreeSuffix m) = toolCalling m"
  "providers (stripFreeSuffix m) = providers m"
  "freeProviders (stripFreeSuffix m) = freeProviders m"
  by (simp_all add: stripFreeSuffix_def Let_def)

lemma mergeModel_fields:
  assumes "mergeModel pf pd fr e m = Inr r"
  shows "modelId r = modelId e"
    and "aliases r = mergeAliases (aliases e) (aliases m)"
    and "openWeights r = mergeFlag (openWeights e) (openWeights m)"
    and "reasoning r = mergeFlag (reasoning e) (reasoning m)"
    and "toolCalling r = mergeFlag (toolCalling e) (toolCalling m)"
    and "providers r =
           (if fr then providers e else deduplicateProviders pf (providers e @ providers m))"
    and "freeProviders r =
           (if fr then Some (deduplicateProviders pf
                  ((case freeProviders e of None \<Rightarrow> [] | Some f \<Rightarrow> f) @ providers m))
            else freeProviders e)"
  using assms by (auto simp: mergeModel_def split: sum.splits)

lemma deduplicateModelsStep_cases:
  assumes "deduplicateModelsStep pf pd byId m = Inr byId1"
  obtains (new) "map_of byId (comparableKey m) = None"
      "byId1 = byId @ [(comparableKey m, stripFreeSuffix m)]"
    | (merge) e r where "map_of byId (comparableKey m) = Some e"
      "mergeModel pf pd (isFreeModelId (modelId m)) e (stripFreeSuffix m) = Inr r"
      "byId1 = AList.update (comparableKey m) r byId"
  using assms
  by (auto simp: deduplicateModelsStep_def comparableKey_def Let_def
      split: option.splits sum.splits)

lemma map_of_snoc_fresh:
  "map_of byId k = None \<Longrightarrow> [k \<mapsto> v] ++ map_of byId = (map_of byId)(k \<mapsto> v)"
  by (rule ext) (auto simp: map_add_def split: option.splits)

lemma set_update_subset: "set (AList.update k v al) \<subseteq> insert (k, v) (set al)"
  by (induction al) auto

lemma update_split:
  "distinct (map fst al) \<Longrightarrow> map_of al k = Some e \<Longrightarrow>
     \<exists>pre post. al = pre @ (k, e) # post \<and> AList.update k v al = pre @ (k, v) # post"
proof (induction al)
  case Nil
  then show ?case by simp
next
  case (Cons a al)
  obtain k' e' where a: "a = (k', e')" by (cases a)
  show ?case
  proof (cases "k' = k")
    case True
    with Cons.prems a have "e' = e" by simp
    with True a have "a # al = [] @ (k, e) # al \<and> AList.update k v (a # al) = [] @ (k, v) # al"
      by simp
    then show ?thesis by blast
  next
    case False
    with Cons.prems a have "distinct (map fst al)" "map_of al k = Some e" by simp_all
    from Cons.IH[OF this] obtain pre post where
      "al = pre @ (k, e) # post" "AList.update k v al = pre @ (k, v) # post" by blast
    with False a have "a # al = (a # pre) @ (k, e) # post \<and>
        AList.update k v (a # al) = (a # pre) @ (k, v) # post" by simp
    then show ?thesis by blast
  qed
qed

lemma keysInv_empty: "keysInv []"
  by (simp add: keysInv_def)

lemma keysInv_step:
  assumes "deduplicateModelsStep pf pd byId m = Inr byId1" and "keysInv byId"
  shows "keysInv byId1"
  using assms(1)
proof (cases rule: deduplicateModelsStep_cases)
  case new
  from new(1) have "comparableKey m \<notin> fst ` set byId"
    by (simp add: map_of_eq_None_iff)
  with assms(2) show ?thesis
    unfolding new(2) by (simp add: keysInv_def comparableKey_def)
next
  case (merge e r)
  from merge(1) have mem: "(comparableKey m, e) \<in> set byId" by (rule map_of_SomeD)
  with assms(2) have "comparableKey m = makeIdComparable (modelId e)"
    by (auto simp: keysInv_def list_all_iff)
  with mergeModel_fields(1)[OF merge(2)] have k: "comparableKey m = makeIdComparable (modelId r)"
    by simp
  have "set (AList.update (comparableKey m) r byId) \<subseteq> insert (comparableKey m, r) (set byId)"
    by (rule set_update_subset)
  with assms(2) k show ?thesis
    unfolding merge(3) by (auto simp: keysInv_def list_all_iff distinct_update)
qed

lemma keysInv_loop:
  "deduplicateModelsLoop pf pd byId ms = Inr byId1 \<Longrightarrow> keysInv byId \<Longrightarrow> keysInv byId1"
proof (induction ms arbitrary: byId)
  case Nil
  then show ?case by simp
next
  case (Cons m ms)
  then show ?case by (auto split: sum.splits dest: keysInv_step)
qed

lemma deduplicateModelsLoop_snoc:
  "deduplicateModelsLoop pf pd byId (ms @ [m]) =
     (case deduplicateModelsLoop pf pd byId ms of
        Inl e \<Rightarrow> Inl e
      | Inr byId1 \<Rightarrow> deduplicateModelsStep pf pd byId1 m)"
  by (induction ms arbitrary: byId) (auto split: sum.splits)

subsection \<open>Flags\<close>

lemma falseCarried_refl: "falseCarried m m"
  by (simp add: falseCarried_def)

lemma falseCarried_trans: "falseCarried a b \<Longrightarrow> falseCarried b c \<Longrightarrow> falseCarried a c"
  by (simp add: falseCarried_def)

lemma falseCarried_strip: "falseCarried m (stripFreeSuffix m)"
  by (simp add: falseCarried_def stripFreeSuffix_fields)

lemma falseCarried_merge:
  assumes "mergeModel pf pd fr e m = Inr r"
  shows "falseCarried e r" and "falseCarried m r"
  using mergeModel_fields(3-5)[OF assms] by (auto simp: falseCarried_def mergeFlag_def)

lemma step_carries_new:
  assumes "deduplicateModelsStep pf pd byId m = Inr byId1"
  shows "\<exists>r. map_of byId1 (comparableKey m) = Some r \<and> falseCarried m r"
  using assms
proof (cases rule: deduplicateModelsStep_cases)
  case new
  then show ?thesis by (simp add: map_of_snoc_fresh falseCarried_strip)
next
  case (merge e r)
  from falseCarried_merge(2)[OF merge(2)] falseCarried_strip[of m]
  have "falseCarried m r" by (blast intro: falseCarried_trans)
  with merge(3) show ?thesis by (simp add: update_conv')
qed

lemma step_carries_old:
  assumes "deduplicateModelsStep pf pd byId m = Inr byId1" and "map_of byId k = Some e"
  shows "\<exists>r. map_of byId1 k = Some r \<and> falseCarried e r"
  using assms(1)
proof (cases rule: deduplicateModelsStep_cases)
  case new
  with assms(2) have "k \<noteq> comparableKey m" by auto
  with new assms(2) show ?thesis by (simp add: map_of_snoc_fresh falseCarried_refl)
next
  case (merge e' r)
  show ?thesis
  proof (cases "k = comparableKey m")
    case True
    with merge(1) assms(2) have "e' = e" by simp
    with falseCarried_merge(1)[OF merge(2)] have "falseCarried e r" by simp
    with True merge(3) show ?thesis by (simp add: update_conv')
  next
    case False
    with merge(3) assms(2) show ?thesis by (simp add: update_conv' falseCarried_refl)
  qed
qed

lemma loop_carries_old:
  "deduplicateModelsLoop pf pd byId ms = Inr byId1 \<Longrightarrow> map_of byId k = Some e \<Longrightarrow>
     \<exists>r. map_of byId1 k = Some r \<and> falseCarried e r"
proof (induction ms arbitrary: byId e)
  case Nil
  then show ?case by (simp add: falseCarried_refl)
next
  case (Cons m ms)
  from Cons.prems(1) obtain byId2 where
    s: "deduplicateModelsStep pf pd byId m = Inr byId2"
    and l: "deduplicateModelsLoop pf pd byId2 ms = Inr byId1"
    by (auto split: sum.splits)
  from step_carries_old[OF s Cons.prems(2)] obtain e2 where
    e2: "map_of byId2 k = Some e2" "falseCarried e e2" by blast
  from Cons.IH[OF l e2(1)] obtain r where "map_of byId1 k = Some r" "falseCarried e2 r" by blast
  with e2(2) show ?case by (blast intro: falseCarried_trans)
qed

lemma loop_carries_input:
  "deduplicateModelsLoop pf pd byId ms = Inr byId1 \<Longrightarrow> m \<in> set ms \<Longrightarrow>
     \<exists>r. map_of byId1 (comparableKey m) = Some r \<and> falseCarried m r"
proof (induction ms arbitrary: byId)
  case Nil
  then show ?case by simp
next
  case (Cons a ms)
  from Cons.prems(1) obtain byId2 where
    s: "deduplicateModelsStep pf pd byId a = Inr byId2"
    and l: "deduplicateModelsLoop pf pd byId2 ms = Inr byId1"
    by (auto split: sum.splits)
  show ?case
  proof (cases "m = a")
    case True
    from step_carries_new[OF s] True obtain e2 where
      e2: "map_of byId2 (comparableKey m) = Some e2" "falseCarried m e2" by blast
    from loop_carries_old[OF l e2(1)] obtain r where
      "map_of byId1 (comparableKey m) = Some r" "falseCarried e2 r" by blast
    with e2(2) show ?thesis by (blast intro: falseCarried_trans)
  next
    case False
    with Cons.prems(2) have "m \<in> set ms" by simp
    from Cons.IH[OF l this] show ?thesis .
  qed
qed

lemma keysInv_lookup:
  assumes "keysInv byId" and "(k, r) \<in> set byId"
  shows "k = makeIdComparable (modelId r)" and "map_of byId k = Some r"
  using assms by (auto simp: keysInv_def list_all_iff)

lemma deduplicateModels_Inr:
  assumes "deduplicateModels pf pd ms = Inr result"
  obtains byId where "deduplicateModelsLoop pf pd [] ms = Inr byId" "result = map snd byId"
    "keysInv byId"
  using assms keysInv_loop[OF _ keysInv_empty]
  by (auto simp: deduplicateModels_def split: sum.splits)

lemma canonical_of_key:
  assumes "keysInv byId" and "map_of byId k = Some r"
  shows "r \<in> set (map snd byId)" and "makeIdComparable (modelId r) = k"
    and "\<And>r'. r' \<in> set (map snd byId) \<Longrightarrow> makeIdComparable (modelId r') = k \<Longrightarrow> r' = r"
proof -
  from assms(2) have mem: "(k, r) \<in> set byId" by (rule map_of_SomeD)
  then show "r \<in> set (map snd byId)" by force
  from keysInv_lookup(1)[OF assms(1) mem] show "makeIdComparable (modelId r) = k" by simp
  fix r' assume "r' \<in> set (map snd byId)" and k': "makeIdComparable (modelId r') = k"
  then obtain k2 where m2: "(k2, r') \<in> set byId" by auto
  from keysInv_lookup[OF assms(1) m2] k' have "map_of byId k = Some r'" by simp
  with assms(2) show "r' = r" by simp
qed

text \<open>
  C4. When \<open>deduplicateModels\<close> returns, every input record has exactly one canonical
  model in the result under its comparison key, and each of the flags \<open>openWeights\<close>,
  \<open>reasoning\<close> and \<open>toolCalling\<close> that is \<open>false\<close> on the input record is \<open>false\<close> on
  that canonical model, wherever the record stands in the list.
\<close>

theorem C4_false_flag_is_sticky:
  assumes "deduplicateModels pf pd models = Inr result" and "m \<in> set models"
  shows "\<exists>r. r \<in> set result \<and>
           makeIdComparable (modelId r) = comparableKey m \<and>
           (\<forall>r'. r' \<in> set result \<and> makeIdComparable (modelId r') = comparableKey m \<longrightarrow> r' = r) \<and>
           (openWeights m = Some False \<longrightarrow> openWeights r = Some False) \<and>
           (reasoning m = Some False \<longrightarrow> reasoning r = Some False) \<and>
           (toolCalling m = Some False \<longrightarrow> toolCalling r = Some False)"
proof -
  from assms(1) obtain byId where
    loop: "deduplicateModelsLoop pf pd [] models = Inr byId"
    and res: "result = map snd byId" and inv: "keysInv byId"
    by (rule deduplicateModels_Inr)
  from loop_carries_input[OF loop assms(2)] obtain r where
    r: "map_of byId (comparableKey m) = Some r" and c: "falseCarried m r" by blast
  note can = canonical_of_key[OF inv r]
  have "r \<in> set result" using can(1) res by simp
  moreover have "makeIdComparable (modelId r) = comparableKey m" by (rule can(2))
  moreover have "\<forall>r'. r' \<in> set result \<and> makeIdComparable (modelId r') = comparableKey m \<longrightarrow> r' = r"
    using can(3) res by blast
  ultimately show ?thesis using c unfolding falseCarried_def by blast
qed

lemma flag_example:
  "deduplicateModels exampleParseFloat exampleParseDate [flagFirst, flagSecond, flagThird] =
     Inr [flagResult]"
  by code_simp

theorem C4_false_flag_is_sticky_witness:
  "deduplicateModels exampleParseFloat exampleParseDate [flagFirst, flagSecond, flagThird] =
     Inr [flagResult] \<and>
   flagSecond \<in> set [flagFirst, flagSecond, flagThird] \<and>
   reasoning flagFirst = Some True \<and> reasoning flagSecond = Some False \<and>
   reasoning flagThird = Some True \<and>
   makeIdComparable (modelId flagResult) = comparableKey flagSecond \<and>
   reasoning flagResult = Some False"
proof -
  have mem: "flagSecond \<in> set [flagFirst, flagSecond, flagThird]" by simp
  have f: "reasoning flagSecond = Some False" by (simp add: flagSecond_def)
  from C4_false_flag_is_sticky[OF flag_example mem] f obtain r where
    "r \<in> set [flagResult]" "makeIdComparable (modelId r) = comparableKey flagSecond"
    "reasoning r = Some False" by blast
  then have "makeIdComparable (modelId flagResult) = comparableKey flagSecond"
    "reasoning flagResult = Some False" by simp_all
  moreover have "reasoning flagFirst = Some True" "reasoning flagThird = Some True"
    by (simp_all add: flagFirst_def flagThird_def)
  ultimately show ?thesis using flag_example mem f by simp
qed

subsection \<open>Providers and free providers\<close>

lemma paid_record_alone: "deduplicateModels exampleParseFloat exampleParseDate [paidRecord] = Inr [paidRecord]"
  by code_simp

text \<open>
  C6, as stated, fails: a paid record and a free-tier record of the same model, both
  offered by provider \<open>a\<close>, give a canonical model that lists provider \<open>a\<close> in
  \<open>providers\<close> and in \<open>freeProviders\<close>.
\<close>

theorem C6_provider_in_both_lists_counterexample:
  "isFreeModelId (modelId freeRecord) \<and>
   deduplicateModels exampleParseFloat exampleParseDate [paidRecord, freeRecord] = Inr [paidAndFree] \<and>
   map providerId (providers paidAndFree) = [''a''] \<and>
   map_option (map providerId) (freeProviders paidAndFree) = Some [''a'']"
  by code_simp

text \<open>
  A free-tier record that is the first of its key is stored as it is: its offering stays
  in \<open>providers\<close>, and \<open>freeProviders\<close> stays absent.
\<close>

lemma free_record_first_example:
  "deduplicateModels exampleParseFloat exampleParseDate [freeRecord] = Inr [freeAlone] \<and>
   providers freeAlone = [offeringFree] \<and> freeProviders freeAlone = None"
  by code_simp

text \<open>
  C6, amended. When a record is merged into the canonical model that exists for its
  comparison key, that model is replaced in place: a free-tier record leaves
  \<open>providers\<close> as it was and its offerings are merged by \<open>deduplicateProviders\<close> into
  \<open>freeProviders\<close>; any other record leaves \<open>freeProviders\<close> as it was and its
  offerings are merged into \<open>providers\<close>.
\<close>

theorem C6_merged_record_goes_to_its_list:
  assumes before: "deduplicateModels pf pd models = Inr before"
    and ex: "existing \<in> set before"
    and key: "makeIdComparable (modelId existing) = comparableKey m"
    and after: "deduplicateModels pf pd (models @ [m]) = Inr after"
  shows "\<exists>pre post r.
           before = pre @ existing # post \<and> after = pre @ r # post \<and>
           (isFreeModelId (modelId m) \<longrightarrow>
              providers r = providers existing \<and>
              freeProviders r =
                Some (deduplicateProviders pf
                  ((case freeProviders existing of None \<Rightarrow> [] | Some f \<Rightarrow> f) @ providers m))) \<and>
           (\<not> isFreeModelId (modelId m) \<longrightarrow>
              providers r = deduplicateProviders pf (providers existing @ providers m) \<and>
              freeProviders r = freeProviders existing)"
proof -
  from before obtain byId where
    loop: "deduplicateModelsLoop pf pd [] models = Inr byId"
    and res: "before = map snd byId" and inv: "keysInv byId"
    by (rule deduplicateModels_Inr)
  from ex res obtain k where mem: "(k, existing) \<in> set byId" by auto
  from keysInv_lookup[OF inv mem] key
  have look: "map_of byId (comparableKey m) = Some existing" by simp
  from after loop obtain byId1 where
    step: "deduplicateModelsStep pf pd byId m = Inr byId1" and res1: "after = map snd byId1"
    by (auto simp: deduplicateModels_def deduplicateModelsLoop_snoc split: sum.splits)
  from step show ?thesis
  proof (cases rule: deduplicateModelsStep_cases)
    case new
    with look show ?thesis by simp
  next
    case (merge e r)
    with look have e: "e = existing" by simp
    from inv have "distinct (map fst byId)" by (simp add: keysInv_def)
    from update_split[OF this look, of r] obtain pre post where
      s: "byId = pre @ (comparableKey m, existing) # post"
      and u: "AList.update (comparableKey m) r byId = pre @ (comparableKey m, r) # post"
      by blast
    have b: "before = map snd pre @ existing # map snd post"
      using res s by simp
    have a: "after = map snd pre @ r # map snd post"
      using res1 merge(3) u by simp
    note f = mergeModel_fields(6,7)[OF merge(2), unfolded e stripFreeSuffix_fields]
    show ?thesis
      apply (rule exI[of _ "map snd pre"], rule exI[of _ "map snd post"], rule exI[of _ r])
      using a b f by simp
  qed
qed

theorem C6_merged_record_goes_to_its_list_witness:
  "deduplicateModels exampleParseFloat exampleParseDate [paidRecord] = Inr [paidRecord] \<and>
   makeIdComparable (modelId paidRecord) = comparableKey freeRecord \<and>
   deduplicateModels exampleParseFloat exampleParseDate ([paidRecord] @ [freeRecord]) = Inr [paidAndFree] \<and>
   isFreeModelId (modelId freeRecord) \<and>
   providers paidAndFree = providers paidRecord \<and>
   freeProviders paidAndFree = Some (deduplicateProviders exampleParseFloat ([] @ providers freeRecord))"
proof -
  have k: "makeIdComparable (modelId paidRecord) = comparableKey freeRecord" by code_simp
  have a: "deduplicateModels exampleParseFloat exampleParseDate ([paidRecord] @ [freeRecord]) = Inr [paidAndFree]"
    by code_simp
  have fr: "isFreeModelId (modelId freeRecord)" by code_simp
  have none: "freeProviders paidRecord = None" by (simp add: paidRecord_def exampleModel_def)
  have mem: "paidRecord \<in> set [paidRecord]" by simp
  from C6_merged_record_goes_to_its_list[OF paid_record_alone mem k a] obtain pre post r where
    b: "[paidRecord] = pre @ paidRecord # post" and c: "[paidAndFree] = pre @ r # post"
    and d: "isFreeModelId (modelId freeRecord) \<longrightarrow>
       providers r = providers paidRecord \<and>
       freeProviders r = Some (deduplicateProviders exampleParseFloat
         ((case freeProviders paidRecord of None \<Rightarrow> [] | Some f \<Rightarrow> f) @ providers freeRecord))"
    by blast
  from b have "pre = [] \<and> post = []" by (simp add: Cons_eq_append_conv append_eq_Cons_conv)
  with c have "r = paidAndFree" by simp
  with d fr none have "providers paidAndFree = providers paidRecord"
    "freeProviders paidAndFree = Some (deduplicateProviders exampleParseFloat ([] @ providers freeRecord))"
    by simp_all
  with paid_record_alone k a fr show ?thesis by simp
qed

subsection \<open>Aliases\<close>

lemma set_uniq: "set (uniq xs) = set xs"
  by (simp add: uniq_def)

lemma distinct_uniq: "distinct (uniq xs)"
  by (simp add: uniq_def)

lemma mergeAliases_props:
  "set (mergeAliases a b) = set a \<union> set b"
  "distinct (mergeAliases a b)"
  "longestFirst (mergeAliases a b)"
proof -
  show "set (mergeAliases a b) = set a \<union> set b"
    by (simp add: mergeAliases_def set_uniq)
  show "distinct (mergeAliases a b)"
    by (simp add: mergeAliases_def distinct_uniq)
  have "sorted (map (\<lambda>s. - int (length s)) (mergeAliases a b))"
    unfolding mergeAliases_def by (rule sorted_sort_key)
  then show "longestFirst (mergeAliases a b)"
    by (simp add: longestFirst_def sorted_map)
qed

lemma stripFreeSuffix_own_id:
  "modelId m \<in> set (aliases m) \<Longrightarrow> modelId (stripFreeSuffix m) \<in> set (aliases (stripFreeSuffix m))"
  by (simp add: stripFreeSuffix_def Let_def)

lemma recordsOfKey_snoc:
  "recordsOfKey k (ms @ [m]) = recordsOfKey k ms + (if comparableKey m = k then 1 else 0)"
  by (simp add: recordsOfKey_def)

lemma alias_invariant:
  "deduplicateModelsLoop pf pd [] ms = Inr byId \<Longrightarrow>
   list_all (\<lambda>m. modelId m \<in> set (aliases m)) ms \<Longrightarrow>
     (\<forall>k. map_of byId k = None \<longrightarrow> recordsOfKey k ms = 0) \<and>
     (\<forall>k r. map_of byId k = Some r \<longrightarrow>
        modelId r \<in> set (aliases r) \<and>
        (2 \<le> recordsOfKey k ms \<longrightarrow> distinct (aliases r) \<and> longestFirst (aliases r)))"
proof (induction ms arbitrary: byId rule: rev_induct)
  case Nil
  then show ?case by (simp add: recordsOfKey_def)
next
  case (snoc m ms)
  from snoc.prems(1) obtain byId0 where
    l0: "deduplicateModelsLoop pf pd [] ms = Inr byId0"
    and st: "deduplicateModelsStep pf pd byId0 m = Inr byId"
    by (auto simp: deduplicateModelsLoop_snoc split: sum.splits)
  from snoc.prems(2) have all: "list_all (\<lambda>m. modelId m \<in> set (aliases m)) ms"
    and own: "modelId m \<in> set (aliases m)" by simp_all
  from snoc.IH[OF l0 all] have
    none0: "\<And>k. map_of byId0 k = None \<Longrightarrow> recordsOfKey k ms = 0"
    and some0: "\<And>k r. map_of byId0 k = Some r \<Longrightarrow> modelId r \<in> set (aliases r)"
    and sorted0: "\<And>k r. map_of byId0 k = Some r \<Longrightarrow> 2 \<le> recordsOfKey k ms \<Longrightarrow>
        distinct (aliases r) \<and> longestFirst (aliases r)"
    by blast+
  from st show ?case
  proof (cases rule: deduplicateModelsStep_cases)
    case new
    have m: "map_of byId = (map_of byId0)(comparableKey m \<mapsto> stripFreeSuffix m)"
      unfolding new(2) using new(1) by (simp add: map_of_snoc_fresh)
    show ?thesis
    proof (intro conjI allI impI)
      fix k assume "map_of byId k = None"
      with m have "k \<noteq> comparableKey m" "map_of byId0 k = None" by (auto split: if_splits)
      with none0 show "recordsOfKey k (ms @ [m]) = 0" by (simp add: recordsOfKey_snoc)
    next
      fix k r assume kr: "map_of byId k = Some r"
      show "modelId r \<in> set (aliases r)"
        using kr m some0 stripFreeSuffix_own_id[OF own] by (auto split: if_splits)
    next
      fix k r assume kr: "map_of byId k = Some r" and two: "2 \<le> recordsOfKey k (ms @ [m])"
      show "distinct (aliases r)"
        using kr m two none0[OF new(1)] sorted0 by (auto simp: recordsOfKey_snoc split: if_splits)
    next
      fix k r assume kr: "map_of byId k = Some r" and two: "2 \<le> recordsOfKey k (ms @ [m])"
      show "longestFirst (aliases r)"
        using kr m two none0[OF new(1)] sorted0 by (auto simp: recordsOfKey_snoc split: if_splits)
    qed
  next
    case (merge e r')
    have m: "map_of byId = (map_of byId0)(comparableKey m \<mapsto> r')"
      unfolding merge(3) by (simp add: update_conv')
    note f = mergeModel_fields(1,2)[OF merge(2)]
    have r'own: "modelId r' \<in> set (aliases r')"
      using f some0[OF merge(1)] by (simp add: mergeAliases_props)
    have r'sorted: "distinct (aliases r')" "longestFirst (aliases r')"
      using f by (simp_all add: mergeAliases_props)
    show ?thesis
    proof (intro conjI allI impI)
      fix k assume "map_of byId k = None"
      with m have "k \<noteq> comparableKey m" "map_of byId0 k = None" by (auto split: if_splits)
      with none0 show "recordsOfKey k (ms @ [m]) = 0" by (simp add: recordsOfKey_snoc)
    next
      fix k r assume kr: "map_of byId k = Some r"
      show "modelId r \<in> set (aliases r)"
        using kr m some0 r'own by (auto split: if_splits)
    next
      fix k r assume kr: "map_of byId k = Some r" and two: "2 \<le> recordsOfKey k (ms @ [m])"
      show "distinct (aliases r)"
        using kr m two r'sorted sorted0 by (auto simp: recordsOfKey_snoc split: if_splits)
    next
      fix k r assume kr: "map_of byId k = Some r" and two: "2 \<le> recordsOfKey k (ms @ [m])"
      show "longestFirst (aliases r)"
        using kr m two r'sorted sorted0 by (auto simp: recordsOfKey_snoc split: if_splits)
    qed
  qed
qed

text \<open>
  C7, as stated, fails: the union of the alias lists is a \<open>Set\<close> of strings, compared
  exactly. Two records whose ids differ in case only are merged, and both spellings stay.
\<close>

theorem C7_case_insensitive_counterexample:
  "list_all (\<lambda>m. modelId m \<in> set (aliases m)) [upperRecord, lowerRecord] \<and>
   deduplicateModels exampleParseFloat exampleParseDate [upperRecord, lowerRecord] = Inr [upperAndLower] \<and>
   aliases upperAndLower = [''Foo'', ''foo''] \<and>
   \<not> distinct (map toLowerCase (aliases upperAndLower))"
  by code_simp

text \<open>
  A free-tier record that no other record joins keeps its alias list with the shortened
  id pushed at the end: an alias may then stand twice, or behind a shorter one.
\<close>

lemma free_record_aliases_example:
  "list_all (\<lambda>m. modelId m \<in> set (aliases m)) [slugRecord] \<and>
   deduplicateModels exampleParseFloat exampleParseDate [slugRecord] = Inr [slugResult] \<and>
   \<not> distinct (aliases slugResult) \<and> \<not> longestFirst (aliases slugResult)"
  by code_simp

text \<open>
  C7, amended. In every canonical model that \<open>deduplicateModels\<close> returns, from inputs
  whose alias lists contain their own id, the alias list contains the model's id; and
  where two or more input records fell under the model's comparison key, the alias
  list has no string twice (compared exactly, case-sensitive) and is sorted by
  descending length.
\<close>

theorem C7_aliases_of_canonical_models:
  assumes res: "deduplicateModels pf pd models = Inr result"
    and own: "list_all (\<lambda>m. modelId m \<in> set (aliases m)) models"
    and r: "r \<in> set result"
  shows "modelId r \<in> set (aliases r) \<and>
         (2 \<le> recordsOfKey (makeIdComparable (modelId r)) models \<longrightarrow>
            distinct (aliases r) \<and> longestFirst (aliases r))"
proof -
  from res obtain byId where
    loop: "deduplicateModelsLoop pf pd [] models = Inr byId"
    and result: "result = map snd byId" and inv: "keysInv byId"
    by (rule deduplicateModels_Inr)
  from r result obtain k where mem: "(k, r) \<in> set byId" by auto
  from keysInv_lookup[OF inv mem]
  have look: "map_of byId (makeIdComparable (modelId r)) = Some r" by simp
  from alias_invariant[OF loop own] look show ?thesis by blast
qed

theorem C7_aliases_of_canonical_models_witness:
  "deduplicateModels exampleParseFloat exampleParseDate [flagFirst, flagSecond, flagThird] =
     Inr [flagResult] \<and>
   list_all (\<lambda>m. modelId m \<in> set (aliases m)) [flagFirst, flagSecond, flagThird] \<and>
   flagResult \<in> set [flagResult] \<and>
   recordsOfKey (makeIdComparable (modelId flagResult)) [flagFirst, flagSecond, flagThird] = 3 \<and>
   aliases flagResult = [''m1:free'', ''m-1'', ''M1'', ''m1''] \<and>
   modelId flagResult \<in> set (aliases flagResult) \<and>
   distinct (aliases flagResult) \<and> longestFirst (aliases flagResult)"
proof -
  have own: "list_all (\<lambda>m. modelId m \<in> set (aliases m)) [flagFirst, flagSecond, flagThird]"
    by code_simp
  have mem: "flagResult \<in> set [flagResult]" by simp
  have n: "recordsOfKey (makeIdComparable (modelId flagResult)) [flagFirst, flagSecond, flagThird] = 3"
    by code_simp
  have a: "aliases flagResult = [''m1:free'', ''m-1'', ''M1'', ''m1'']" by code_simp
  from C7_aliases_of_canonical_models[OF flag_example own mem] n
  have "modelId flagResult \<in> set (aliases flagResult) \<and>
        distinct (aliases flagResult) \<and> longestFirst (aliases flagResult)" by simp
  with flag_example own mem n a show ?thesis by simp
qed

subsection \<open>Deduplicating a deduplicated list\<close>

lemma stripFreeSuffix_not_free: "\<not> isFreeModelId (modelId m) \<Longrightarrow> stripFreeSuffix m = m"
  by (simp add: stripFreeSuffix_def)

lemma not_free_step:
  assumes "deduplicateModelsStep pf pd byId m = Inr byId1"
    and "list_all (\<lambda>(k, r). \<not> isFreeModelId (modelId r)) byId"
    and "\<not> isFreeModelId (modelId (stripFreeSuffix m))"
  shows "list_all (\<lambda>(k, r). \<not> isFreeModelId (modelId r)) byId1"
  using assms(1)
proof (cases rule: deduplicateModelsStep_cases)
  case new
  with assms(2,3) show ?thesis by simp
next
  case (merge e r)
  from merge(1) have "(comparableKey m, e) \<in> set byId" by (rule map_of_SomeD)
  with assms(2) have "\<not> isFreeModelId (modelId e)" by (auto simp: list_all_iff)
  with mergeModel_fields(1)[OF merge(2)] have "\<not> isFreeModelId (modelId r)" by simp
  with assms(2) set_update_subset[of "comparableKey m" r byId] show ?thesis
    unfolding merge(3) by (auto simp: list_all_iff)
qed

lemma not_free_loop:
  "deduplicateModelsLoop pf pd byId ms = Inr byId1 \<Longrightarrow>
   list_all (\<lambda>(k, r). \<not> isFreeModelId (modelId r)) byId \<Longrightarrow>
   list_all (\<lambda>m. \<not> isFreeModelId (modelId (stripFreeSuffix m))) ms \<Longrightarrow>
     list_all (\<lambda>(k, r). \<not> isFreeModelId (modelId r)) byId1"
proof (induction ms arbitrary: byId)
  case Nil
  then show ?case by simp
next
  case (Cons m ms)
  from Cons.prems(1) obtain byId2 where
    s: "deduplicateModelsStep pf pd byId m = Inr byId2"
    and l: "deduplicateModelsLoop pf pd byId2 ms = Inr byId1"
    by (auto split: sum.splits)
  from Cons.prems(3) have h: "\<not> isFreeModelId (modelId (stripFreeSuffix m))"
    and t: "list_all (\<lambda>m. \<not> isFreeModelId (modelId (stripFreeSuffix m))) ms" by simp_all
  from Cons.IH[OF l not_free_step[OF s Cons.prems(2) h] t] show ?case .
qed

lemma loop_of_distinct_keys:
  "distinct (map fst byId @ map (\<lambda>r. makeIdComparable (modelId r)) ys) \<Longrightarrow>
   list_all (\<lambda>r. \<not> isFreeModelId (modelId r)) ys \<Longrightarrow>
     deduplicateModelsLoop pf pd byId ys =
       Inr (byId @ map (\<lambda>r. (makeIdComparable (modelId r), r)) ys)"
proof (induction ys arbitrary: byId)
  case Nil
  then show ?case by simp
next
  case (Cons y ys)
  let ?k = "makeIdComparable (modelId y)"
  from Cons.prems(2) have nf: "\<not> isFreeModelId (modelId y)"
    and rest: "list_all (\<lambda>r. \<not> isFreeModelId (modelId r)) ys" by simp_all
  from Cons.prems(1) have "?k \<notin> fst ` set byId" by auto
  then have none: "map_of byId ?k = None" by (simp add: map_of_eq_None_iff)
  have step: "deduplicateModelsStep pf pd byId y = Inr (byId @ [(?k, y)])"
    using nf none by (simp add: deduplicateModelsStep_def stripFreeSuffix_not_free)
  from Cons.prems(1)
  have d: "distinct (map fst (byId @ [(?k, y)]) @ map (\<lambda>r. makeIdComparable (modelId r)) ys)"
    by simp
  from Cons.IH[OF d rest] step show ?case by simp
qed

lemma keysInv_as_map:
  "keysInv byId \<Longrightarrow> byId = map (\<lambda>r. (makeIdComparable (modelId r), r)) (map snd byId)"
  by (induction byId) (auto simp: keysInv_def)

text \<open>
  C8, as stated, fails: an id that carries the suffix twice loses it once in each pass.
  The id has no namespace, so it is canonical for \<open>getModelBaseId\<close>.
\<close>

theorem C8_double_suffix_counterexample:
  "getModelBaseId (modelId doubleFree) = modelId doubleFree \<and>
   deduplicateModels exampleParseFloat exampleParseDate [doubleFree] = Inr [doubleFreeOnce] \<and>
   deduplicateModels exampleParseFloat exampleParseDate [doubleFreeOnce] = Inr [doubleFreeTwice] \<and>
   modelId doubleFreeOnce = ''a:free'' \<and> modelId doubleFreeTwice = ''a'' \<and>
   doubleFreeTwice \<noteq> doubleFreeOnce"
  by code_simp

text \<open>
  C8, amended. For every model list in which no id still ends with \<open>:free\<close>
  (case-insensitive) once one trailing \<open>:free\<close> has been removed, and on which
  \<open>deduplicateModels\<close> returns, deduplicating the result again returns the result
  unchanged.
\<close>

theorem C8_deduplicate_idempotent:
  assumes res: "deduplicateModels pf pd models = Inr result"
    and single: "list_all (\<lambda>m. \<not> isFreeModelId (modelId (stripFreeSuffix m))) models"
  shows "deduplicateModels pf pd result = Inr result"
proof -
  from res obtain byId where
    loop: "deduplicateModelsLoop pf pd [] models = Inr byId"
    and result: "result = map snd byId" and inv: "keysInv byId"
    by (rule deduplicateModels_Inr)
  from not_free_loop[OF loop _ single]
  have "list_all (\<lambda>(k, r). \<not> isFreeModelId (modelId r)) byId" by simp
  then have nf: "list_all (\<lambda>r. \<not> isFreeModelId (modelId r)) result"
    unfolding result by (auto simp: list_all_iff)
  have m: "byId = map (\<lambda>r. (makeIdComparable (modelId r), r)) result"
    unfolding result using inv by (rule keysInv_as_map)
  from inv have "distinct (map fst byId)" by (simp add: keysInv_def)
  then have "distinct (map (\<lambda>r. makeIdComparable (modelId r)) result)"
    by (subst (asm) m) (simp add: comp_def)
  then have d: "distinct (map fst [] @ map (\<lambda>r. makeIdComparable (modelId r)) result)" by simp
  from loop_of_distinct_keys[OF d nf, of pf pd]
  show ?thesis by (simp add: deduplicateModels_def comp_def)
qed

theorem C8_deduplicate_idempotent_witness:
  "deduplicateModels exampleParseFloat exampleParseDate [flagFirst, flagSecond, flagThird] =
     Inr [flagResult] \<and>
   list_all (\<lambda>m. \<not> isFreeModelId (modelId (stripFreeSuffix m))) [flagFirst, flagSecond, flagThird] \<and>
   deduplicateModels exampleParseFloat exampleParseDate [flagResult] = Inr [flagResult]"
proof -
  have single: "list_all (\<lambda>m. \<not> isFreeModelId (modelId (stripFreeSuffix m)))
      [flagFirst, flagSecond, flagThird]" by code_simp
  from C8_deduplicate_idempotent[OF flag_example single] flag_example single
  show ?thesis by simp
qed

section \<open>Properties of the processor\<close>

subsection \<open>Lists\<close>

lemma find_Some_holds: "find P xs = Some x \<Longrightarrow> P x \<and> x \<in> set xs"
  by (induction xs) (auto split: if_splits)

lemma find_None_filter: "(find P xs = None) = (filter P xs = [])"
  by (induction xs) auto

lemma set_insertBy: "set (insertBy cmp x xs) = insert x (set xs)"
  by (induction xs) auto

lemma set_sortBy: "set (sortBy cmp xs) = set xs"
  unfolding sortBy_def by (induction xs) (auto simp: set_insertBy)

lemma newAndChangedSources_append:
  "newAndChangedSources (xs @ ys) = newAndChangedSources xs @ newAndChangedSources ys"
  by (induction xs rule: newAndChangedSources.induct) auto

subsection \<open>Marking the missing models\<close>

lemma find_markDeprecated:
  "find (\<lambda>m. modelId m = x) (markDeprecated ems y) =
     (if x = y then map_option (\<lambda>m. m\<lparr>deprecated := Some True\<rparr>) (find (\<lambda>m. modelId m = x) ems)
      else find (\<lambda>m. modelId m = x) ems)"
  unfolding markDeprecated_def by (induction ems) auto

lemma find_markDeprecated_all:
  "find (\<lambda>m. modelId m = x) (foldl markDeprecated ems ys) =
     (if x \<in> set ys then map_option (\<lambda>m. m\<lparr>deprecated := Some True\<rparr>) (find (\<lambda>m. modelId m = x) ems)
      else find (\<lambda>m. modelId m = x) ems)"
proof (induction ys arbitrary: ems)
  case Nil
  then show ?case by simp
next
  case (Cons y ys)
  show ?case
    by (simp add: Cons.IH find_markDeprecated option.map_comp comp_def)
qed

subsection \<open>Adding the existing models back\<close>

lemma addBack_Cons:
  "addBack (e # ems) list =
     addBack ems (if find (\<lambda>m. modelId m = modelId e) list = None then list @ [e] else list)"
  by (simp add: addBack_def)

lemma filter_addBack:
  "filter (\<lambda>m. modelId m = x) (addBack ems list) =
     (if filter (\<lambda>m. modelId m = x) list = []
      then (case find (\<lambda>m. modelId m = x) ems of None \<Rightarrow> [] | Some e \<Rightarrow> [e])
      else filter (\<lambda>m. modelId m = x) list)"
proof (induction ems arbitrary: list)
  case Nil
  then show ?case by (simp add: addBack_def)
next
  case (Cons e ems)
  show ?case
    unfolding addBack_Cons Cons.IH
    by (auto simp: find_None_filter filter_empty_conv)
qed

subsection \<open>The calls of the steps\<close>

lemma runNewAndChanged_sources:
  "runNewAndChanged steps src ex nm cs = (r, cs') \<Longrightarrow>
     set (newAndChangedSources cs') \<subseteq> insert (modelId src) (set (newAndChangedSources cs))"
proof (induction steps arbitrary: nm cs)
  case Nil
  then show ?case by auto
next
  case (Cons step steps)
  show ?case
  proof (cases "step src ex nm")
    case (Inl e)
    with Cons.prems show ?thesis by (auto simp: newAndChangedSources_append)
  next
    case (Inr nm')
    with Cons.prems have "runNewAndChanged steps src ex nm' (cs @ [NewAndChangedCall src ex nm]) = (r, cs')"
      by simp
    from Cons.IH[OF this] show ?thesis by (auto simp: newAndChangedSources_append)
  qed
qed

lemma runNoChange_sources:
  "runNoChange steps src ex cs = (r, cs') \<Longrightarrow> newAndChangedSources cs' = newAndChangedSources cs"
proof (induction steps arbitrary: ex cs)
  case Nil
  then show ?case by auto
next
  case (Cons step steps)
  show ?case
  proof (cases "step src ex")
    case (Inl e)
    with Cons.prems show ?thesis by (auto simp: newAndChangedSources_append)
  next
    case (Inr ex')
    with Cons.prems have "runNoChange steps src ex' (cs @ [NoChangeCall src ex]) = (r, cs')" by simp
    from Cons.IH[OF this] show ?thesis by (simp add: newAndChangedSources_append)
  qed
qed

lemma runBatch_sources:
  "runBatch steps ms cs = (r, cs') \<Longrightarrow> newAndChangedSources cs' = newAndChangedSources cs"
proof (induction steps arbitrary: ms cs)
  case Nil
  then show ?case by auto
next
  case (Cons step steps)
  show ?case
  proof (cases "step ms")
    case (Inl e)
    with Cons.prems show ?thesis by (auto simp: newAndChangedSources_append)
  next
    case (Inr ms')
    with Cons.prems have "runBatch steps ms' (cs @ [BatchCall ms]) = (r, cs')" by simp
    from Cons.IH[OF this] show ?thesis by (simp add: newAndChangedSources_append)
  qed
qed

lemma runOutputStructure_sources:
  "runOutputStructure steps s cs = (r, cs') \<Longrightarrow> newAndChangedSources cs' = newAndChangedSources cs"
proof (induction steps arbitrary: s cs)
  case Nil
  then show ?case by auto
next
  case (Cons step steps)
  show ?case
  proof (cases "step s")
    case (Inl e)
    with Cons.prems show ?thesis by (auto simp: newAndChangedSources_append)
  next
    case (Inr s')
    with Cons.prems have "runOutputStructure steps s' (cs @ [OutputStructureCall s]) = (r, cs')" by simp
    from Cons.IH[OF this] show ?thesis by (simp add: newAndChangedSources_append)
  qed
qed

lemma ball_Cons_head: "\<forall>x\<in>set (a # xs). P x \<Longrightarrow> P a"
  by simp

lemma ball_Cons_tail: "\<forall>x\<in>set (a # xs). P x \<Longrightarrow> \<forall>x\<in>set xs. P x"
  by simp

lemma runNewAndChanged_ids:
  assumes "runNewAndChanged steps src ex nm cs = (r, cs')"
    and "\<forall>step\<in>set steps. \<forall>src ex nm r. step src ex nm = Inr r \<longrightarrow> modelId r = modelId nm"
    and "x \<noteq> modelId src" and "x \<noteq> modelId nm" and "\<And>e. ex = Some e \<Longrightarrow> x \<noteq> modelId e"
    and "\<And>c. c \<in> set cs \<Longrightarrow> x \<notin> set (enrichedIds c)"
  shows "(\<forall>c. c \<in> set cs' \<longrightarrow> x \<notin> set (enrichedIds c)) \<and> (\<forall>nm'. r = Inr nm' \<longrightarrow> modelId nm' \<noteq> x)"
  using assms
proof (induction steps arbitrary: nm cs)
  case Nil
  from Nil.prems(1,4,6) show ?case by auto
next
  case (Cons step steps)
  have here: "x \<notin> set (enrichedIds (NewAndChangedCall src ex nm))"
    using Cons.prems(3,4,5) by (auto split: option.splits)
  note head = ball_Cons_head[OF Cons.prems(2)] and tail = ball_Cons_tail[OF Cons.prems(2)]
  show ?case
  proof (cases "step src ex nm")
    case (Inl e)
    with Cons.prems(1) have "r = Inl e" "cs' = cs @ [NewAndChangedCall src ex nm]" by simp_all
    with here Cons.prems(6) show ?thesis by auto
  next
    case (Inr nm')
    with Cons.prems(1)
    have run: "runNewAndChanged steps src ex nm' (cs @ [NewAndChangedCall src ex nm]) = (r, cs')"
      by simp
    from head Inr have "modelId nm' = modelId nm" by blast
    with Cons.prems(4) have id: "x \<noteq> modelId nm'" by simp
    show ?thesis
    proof (rule Cons.IH[OF run tail Cons.prems(3) id Cons.prems(5)])
      show "\<And>e. ex = Some e \<Longrightarrow> ex = Some e" by simp
      show "\<And>c. c \<in> set (cs @ [NewAndChangedCall src ex nm]) \<Longrightarrow> x \<notin> set (enrichedIds c)"
        using here Cons.prems(6) by auto
    qed
  qed
qed

lemma runNoChange_ids:
  assumes "runNoChange steps src ex cs = (r, cs')"
    and "\<forall>step\<in>set steps. \<forall>src ex r. step src ex = Inr r \<longrightarrow> modelId r = modelId ex"
    and "x \<noteq> modelId src" and "x \<noteq> modelId ex"
    and "\<And>c. c \<in> set cs \<Longrightarrow> x \<notin> set (enrichedIds c)"
  shows "(\<forall>c. c \<in> set cs' \<longrightarrow> x \<notin> set (enrichedIds c)) \<and> (\<forall>ex'. r = Inr ex' \<longrightarrow> modelId ex' \<noteq> x)"
  using assms
proof (induction steps arbitrary: ex cs)
  case Nil
  from Nil.prems(1,4,5) show ?case by auto
next
  case (Cons step steps)
  have here: "x \<notin> set (enrichedIds (NoChangeCall src ex))"
    using Cons.prems(3,4) by auto
  note head = ball_Cons_head[OF Cons.prems(2)] and tail = ball_Cons_tail[OF Cons.prems(2)]
  show ?case
  proof (cases "step src ex")
    case (Inl e)
    with Cons.prems(1) have "r = Inl e" "cs' = cs @ [NoChangeCall src ex]" by simp_all
    with here Cons.prems(5) show ?thesis by auto
  next
    case (Inr ex')
    with Cons.prems(1)
    have run: "runNoChange steps src ex' (cs @ [NoChangeCall src ex]) = (r, cs')" by simp
    from head Inr have "modelId ex' = modelId ex" by blast
    with Cons.prems(4) have id: "x \<noteq> modelId ex'" by simp
    show ?thesis
    proof (rule Cons.IH[OF run tail Cons.prems(3) id])
      show "\<And>c. c \<in> set (cs @ [NoChangeCall src ex]) \<Longrightarrow> x \<notin> set (enrichedIds c)"
        using here Cons.prems(5) by auto
    qed
  qed
qed

lemma runBatch_ids:
  assumes "runBatch steps ms cs = (r, cs')"
    and "\<forall>step\<in>set steps. \<forall>ms rs. step ms = Inr rs \<longrightarrow>
           set (map modelId rs) \<subseteq> set (map modelId ms)"
    and "x \<notin> set (map modelId ms)"
    and "\<And>c. c \<in> set cs \<Longrightarrow> x \<notin> set (enrichedIds c)"
  shows "(\<forall>c. c \<in> set cs' \<longrightarrow> x \<notin> set (enrichedIds c)) \<and>
         (\<forall>ms'. r = Inr ms' \<longrightarrow> x \<notin> set (map modelId ms'))"
  using assms
proof (induction steps arbitrary: ms cs)
  case Nil
  from Nil.prems(1,3,4) show ?case by auto
next
  case (Cons step steps)
  have here: "x \<notin> set (enrichedIds (BatchCall ms))"
    using Cons.prems(3) by simp
  note head = ball_Cons_head[OF Cons.prems(2)] and tail = ball_Cons_tail[OF Cons.prems(2)]
  show ?case
  proof (cases "step ms")
    case (Inl e)
    with Cons.prems(1) have "r = Inl e" "cs' = cs @ [BatchCall ms]" by simp_all
    with here Cons.prems(4) show ?thesis by auto
  next
    case (Inr ms')
    with Cons.prems(1)
    have run: "runBatch steps ms' (cs @ [BatchCall ms]) = (r, cs')" by simp
    from head Inr have "set (map modelId ms') \<subseteq> set (map modelId ms)" by blast
    with Cons.prems(3) have id: "x \<notin> set (map modelId ms')" by blast
    show ?thesis
    proof (rule Cons.IH[OF run tail id])
      show "\<And>c. c \<in> set (cs @ [BatchCall ms]) \<Longrightarrow> x \<notin> set (enrichedIds c)"
        using here Cons.prems(4) by auto
    qed
  qed
qed

lemma runOutputStructure_ids:
  assumes "runOutputStructure steps s cs = (r, cs')"
    and "\<forall>step\<in>set steps. \<forall>s s'. step s = Inr s' \<longrightarrow> os_models s' = os_models s"
    and "\<And>c. c \<in> set cs \<Longrightarrow> x \<notin> set (enrichedIds c)"
  shows "(\<forall>c. c \<in> set cs' \<longrightarrow> x \<notin> set (enrichedIds c)) \<and>
         (\<forall>s'. r = Inr s' \<longrightarrow> os_models s' = os_models s)"
  using assms
proof (induction steps arbitrary: s cs)
  case Nil
  from Nil.prems(1,3) show ?case by auto
next
  case (Cons step steps)
  note head = ball_Cons_head[OF Cons.prems(2)] and tail = ball_Cons_tail[OF Cons.prems(2)]
  show ?case
  proof (cases "step s")
    case (Inl e)
    with Cons.prems(1) have "r = Inl e" "cs' = cs @ [OutputStructureCall s]" by simp_all
    with Cons.prems(3) show ?thesis by auto
  next
    case (Inr s1)
    with Cons.prems(1)
    have run: "runOutputStructure steps s1 (cs @ [OutputStructureCall s]) = (r, cs')" by simp
    from head Inr have keep: "os_models s1 = os_models s" by blast
    have "(\<forall>c. c \<in> set cs' \<longrightarrow> x \<notin> set (enrichedIds c)) \<and>
          (\<forall>s'. r = Inr s' \<longrightarrow> os_models s' = os_models s1)"
    proof (rule Cons.IH[OF run tail])
      show "\<And>c. c \<in> set (cs @ [OutputStructureCall s]) \<Longrightarrow> x \<notin> set (enrichedIds c)"
        using Cons.prems(3) by auto
    qed
    then have "\<forall>c. c \<in> set cs' \<longrightarrow> x \<notin> set (enrichedIds c)"
      and "\<forall>s'. r = Inr s' \<longrightarrow> os_models s' = os_models s1" by blast+
    then show ?thesis unfolding keep by blast
  qed
qed

subsection \<open>One pass of the loop\<close>

lemma processModel_skip:
  assumes "find (\<lambda>e. modelId e = modelId m) ems = Some existing"
    and "storedHash (hashes st) (modelId m) = calculateModelHash rt m"
    and "noChange steps = []"
  shows "processModel rt steps ems st m = (None, st\<lparr>clock := clock st + 1\<rparr>)"
  using assms by (simp add: processModel_def Let_def)

lemma processModel_light:
  assumes "find (\<lambda>e. modelId e = modelId m) ems = Some existing"
    and "storedHash (hashes st) (modelId m) = calculateModelHash rt m"
    and "noChange steps \<noteq> []"
  shows "processModel rt steps ems st m =
     (case runNoChange (noChange steps) m existing (calls st) of
        (Inl e, cs) \<Rightarrow> (Some e, st\<lparr>clock := clock st + 1, calls := cs\<rparr>)
      | (Inr existing', cs) \<Rightarrow>
          (None, st\<lparr>clock := clock st + 1,
                    newModelsList := newModelsList st @ [existing'], calls := cs\<rparr>))"
  using assms by (simp add: processModel_def Let_def split: prod.splits sum.splits)

lemma processModel_full:
  assumes "\<not> (find (\<lambda>e. modelId e = modelId m) ems \<noteq> None \<and>
          storedHash (hashes st) (modelId m) = calculateModelHash rt m)"
  shows "processModel rt steps ems st m =
     (case runNewAndChanged (newAndChanged steps) m (find (\<lambda>e. modelId e = modelId m) ems)
             (initialNewModel (now rt (clock st)) m) (calls st) of
        (Inl e, cs) \<Rightarrow>
          (Some e, st\<lparr>clock := clock st + 1,
                      hashes := (hashes st)(modelId m \<mapsto> calculateModelHash rt m), calls := cs\<rparr>)
      | (Inr newModel', cs) \<Rightarrow>
          (None, st\<lparr>clock := clock st + 1,
                    hashes := (hashes st)(modelId m \<mapsto> calculateModelHash rt m),
                    newModelsList := newModelsList st @ [newModel'], calls := cs\<rparr>))"
proof (cases "find (\<lambda>e. modelId e = modelId m) ems")
  case None
  then show ?thesis by (simp add: processModel_def Let_def split: prod.splits sum.splits)
next
  case (Some existing)
  with assms have "storedHash (hashes st) (modelId m) \<noteq> calculateModelHash rt m" by simp
  with Some show ?thesis by (simp add: processModel_def Let_def split: prod.splits sum.splits)
qed


lemma stepsKeepIds_newAndChanged:
  "stepsKeepIds steps \<Longrightarrow>
     \<forall>step\<in>set (newAndChanged steps). \<forall>src ex nm r.
        step src ex nm = Inr r \<longrightarrow> modelId r = modelId nm"
  unfolding stepsKeepIds_def by (elim conjE)

lemma stepsKeepIds_noChange:
  "stepsKeepIds steps \<Longrightarrow>
     \<forall>step\<in>set (noChange steps). \<forall>src ex r. step src ex = Inr r \<longrightarrow> modelId r = modelId ex"
  unfolding stepsKeepIds_def by (elim conjE)

lemma stepsKeepIds_batch:
  "stepsKeepIds steps \<Longrightarrow>
     \<forall>step\<in>set (batch steps). \<forall>ms rs.
        step ms = Inr rs \<longrightarrow> set (map modelId rs) \<subseteq> set (map modelId ms)"
  unfolding stepsKeepIds_def by (elim conjE)

lemma stepsKeepIds_outputStructure:
  "stepsKeepIds steps \<Longrightarrow>
     \<forall>step\<in>set (outputStructure steps). \<forall>s s'.
        step s = Inr s' \<longrightarrow> os_models s' = os_models s"
  unfolding stepsKeepIds_def by (elim conjE)

lemma storedHash_Some: "hs i = Some h \<Longrightarrow> storedHash hs i = h"
  by (simp add: storedHash_def)

lemma processModel_unchanged:
  assumes run: "processModel rt steps ems st m = (r, st')"
    and target: "modelId m = x \<longrightarrow>
       find (\<lambda>e. modelId e = x) ems \<noteq> None \<and> hashes st x = Some (calculateModelHash rt m)"
    and before: "x \<notin> set (newAndChangedSources (calls st))"
  shows "hashes st' x = hashes st x \<and> x \<notin> set (newAndChangedSources (calls st'))"
proof (cases "find (\<lambda>e. modelId e = modelId m) ems \<noteq> None \<and>
    storedHash (hashes st) (modelId m) = calculateModelHash rt m")
  case True
  then obtain existing where ex: "find (\<lambda>e. modelId e = modelId m) ems = Some existing"
    and eq: "storedHash (hashes st) (modelId m) = calculateModelHash rt m" by auto
  show ?thesis
  proof (cases "noChange steps = []")
    case True
    from run processModel_skip[OF ex eq True] have "st' = st\<lparr>clock := clock st + 1\<rparr>" by simp
    with before show ?thesis by simp
  next
    case False
    obtain r' cs where rn: "runNoChange (noChange steps) m existing (calls st) = (r', cs)"
      by (cases "runNoChange (noChange steps) m existing (calls st)")
    from run processModel_light[OF ex eq False] rn
    have "hashes st' = hashes st" "calls st' = cs" by (auto split: sum.splits)
    with runNoChange_sources[OF rn] before show ?thesis by simp
  qed
next
  case False
  with target have ne: "modelId m \<noteq> x" by (auto simp: storedHash_Some)
  obtain r' cs where rn: "runNewAndChanged (newAndChanged steps) m
      (find (\<lambda>e. modelId e = modelId m) ems) (initialNewModel (now rt (clock st)) m) (calls st) = (r', cs)"
    by (cases "runNewAndChanged (newAndChanged steps) m
      (find (\<lambda>e. modelId e = modelId m) ems) (initialNewModel (now rt (clock st)) m) (calls st)")
  from run processModel_full[OF False] rn
  have h: "hashes st' = (hashes st)(modelId m \<mapsto> calculateModelHash rt m)" and c: "calls st' = cs"
    by (auto split: sum.splits)
  from runNewAndChanged_sources[OF rn] before ne c
  have "x \<notin> set (newAndChangedSources (calls st'))" by auto
  with h ne show ?thesis by simp
qed

lemma processModel_not_added:
  assumes run: "processModel rt steps ems st m = (r, st')"
    and keep: "stepsKeepIds steps"
    and target: "modelId m = x \<longrightarrow>
       noChange steps = [] \<and> find (\<lambda>e. modelId e = x) ems \<noteq> None \<and>
       hashes st x = Some (calculateModelHash rt m)"
    and list: "x \<notin> set (map modelId (newModelsList st))"
    and before: "\<And>c. c \<in> set (calls st) \<Longrightarrow> x \<notin> set (enrichedIds c)"
  shows "x \<notin> set (map modelId (newModelsList st')) \<and>
         (\<forall>c. c \<in> set (calls st') \<longrightarrow> x \<notin> set (enrichedIds c)) \<and>
         hashes st' x = hashes st x"
proof (cases "find (\<lambda>e. modelId e = modelId m) ems \<noteq> None \<and>
    storedHash (hashes st) (modelId m) = calculateModelHash rt m")
  case True
  then obtain existing where ex: "find (\<lambda>e. modelId e = modelId m) ems = Some existing"
    and eq: "storedHash (hashes st) (modelId m) = calculateModelHash rt m" by auto
  from find_Some_holds[OF ex] have exid: "modelId existing = modelId m" by simp
  show ?thesis
  proof (cases "noChange steps = []")
    case True
    from run processModel_skip[OF ex eq True] have "st' = st\<lparr>clock := clock st + 1\<rparr>" by simp
    with list before show ?thesis by simp
  next
    case False
    with target have ne: "x \<noteq> modelId m" by auto
    obtain r' cs where rn: "runNoChange (noChange steps) m existing (calls st) = (r', cs)"
      by (cases "runNoChange (noChange steps) m existing (calls st)")
    note c = stepsKeepIds_noChange[OF keep]
    from ne exid have ne': "x \<noteq> modelId existing" by simp
    from runNoChange_ids[OF rn c ne ne' before]
    have calls: "\<forall>c. c \<in> set cs \<longrightarrow> x \<notin> set (enrichedIds c)"
      and res: "\<forall>ex'. r' = Inr ex' \<longrightarrow> modelId ex' \<noteq> x" by blast+
    from run processModel_light[OF ex eq False] rn
    have "hashes st' = hashes st" "calls st' = cs"
      "newModelsList st' = newModelsList st @ (case r' of Inl e \<Rightarrow> [] | Inr e' \<Rightarrow> [e'])"
      by (auto split: sum.splits)
    with calls res list show ?thesis by (auto split: sum.splits)
  qed
next
  case False
  with target have ne: "x \<noteq> modelId m" by (auto simp: storedHash_Some)
  let ?ex = "find (\<lambda>e. modelId e = modelId m) ems"
  let ?nm = "initialNewModel (now rt (clock st)) m"
  obtain r' cs where rn: "runNewAndChanged (newAndChanged steps) m ?ex ?nm (calls st) = (r', cs)"
    by (cases "runNewAndChanged (newAndChanged steps) m ?ex ?nm (calls st)")
  note c = stepsKeepIds_newAndChanged[OF keep]
  have nm: "x \<noteq> modelId ?nm" using ne by (simp add: initialNewModel_def)
  have exne: "\<And>e. ?ex = Some e \<Longrightarrow> x \<noteq> modelId e"
  proof -
    fix e assume "?ex = Some e"
    from find_Some_holds[OF this] have "modelId e = modelId m" by simp
    with ne show "x \<noteq> modelId e" by simp
  qed
  from runNewAndChanged_ids[OF rn c ne nm exne before]
  have calls: "\<forall>c. c \<in> set cs \<longrightarrow> x \<notin> set (enrichedIds c)"
    and res: "\<forall>nm'. r' = Inr nm' \<longrightarrow> modelId nm' \<noteq> x" by blast+
  from run processModel_full[OF False] rn
  have "hashes st' = (hashes st)(modelId m \<mapsto> calculateModelHash rt m)" "calls st' = cs"
    "newModelsList st' = newModelsList st @ (case r' of Inl e \<Rightarrow> [] | Inr n \<Rightarrow> [n])"
    by (auto split: sum.splits)
  with calls res list ne show ?thesis by (auto split: sum.splits)
qed

subsection \<open>The loop over the source models\<close>

lemma processLoop_unchanged:
  "processLoop rt steps ems st ms = (r, st') \<Longrightarrow>
   find (\<lambda>e. modelId e = x) ems \<noteq> None \<Longrightarrow>
   \<forall>m\<in>set ms. modelId m = x \<longrightarrow> hashes st x = Some (calculateModelHash rt m) \<Longrightarrow>
   x \<notin> set (newAndChangedSources (calls st)) \<Longrightarrow>
     hashes st' x = hashes st x \<and> x \<notin> set (newAndChangedSources (calls st'))"
proof (induction ms arbitrary: st)
  case Nil
  then show ?case by simp
next
  case (Cons m ms)
  obtain r1 st1 where pm: "processModel rt steps ems st m = (r1, st1)"
    by (cases "processModel rt steps ems st m")
  have t: "modelId m = x \<longrightarrow>
       find (\<lambda>e. modelId e = x) ems \<noteq> None \<and> hashes st x = Some (calculateModelHash rt m)"
    using Cons.prems(2,3) by simp
  from processModel_unchanged[OF pm t Cons.prems(4)]
  have h1: "hashes st1 x = hashes st x" and c1: "x \<notin> set (newAndChangedSources (calls st1))"
    by simp_all
  show ?case
  proof (cases r1)
    case (Some e)
    with Cons.prems(1) pm have "st' = st1" by simp
    with h1 c1 show ?thesis by simp
  next
    case None
    with Cons.prems(1) pm have loop: "processLoop rt steps ems st1 ms = (r, st')" by simp
    have "\<forall>m\<in>set ms. modelId m = x \<longrightarrow> hashes st1 x = Some (calculateModelHash rt m)"
      using Cons.prems(3) h1 by simp
    from Cons.IH[OF loop Cons.prems(2) this c1] h1 show ?thesis by simp
  qed
qed

lemma processLoop_not_added:
  "processLoop rt steps ems st ms = (r, st') \<Longrightarrow>
   stepsKeepIds steps \<Longrightarrow>
   \<forall>m\<in>set ms. modelId m = x \<longrightarrow>
      noChange steps = [] \<and> find (\<lambda>e. modelId e = x) ems \<noteq> None \<and>
      hashes st x = Some (calculateModelHash rt m) \<Longrightarrow>
   x \<notin> set (map modelId (newModelsList st)) \<Longrightarrow>
   \<forall>c. c \<in> set (calls st) \<longrightarrow> x \<notin> set (enrichedIds c) \<Longrightarrow>
     x \<notin> set (map modelId (newModelsList st')) \<and>
     (\<forall>c. c \<in> set (calls st') \<longrightarrow> x \<notin> set (enrichedIds c)) \<and>
     hashes st' x = hashes st x"
proof (induction ms arbitrary: st)
  case Nil
  then show ?case by simp
next
  case (Cons m ms)
  obtain r1 st1 where pm: "processModel rt steps ems st m = (r1, st1)"
    by (cases "processModel rt steps ems st m")
  have t: "modelId m = x \<longrightarrow>
       noChange steps = [] \<and> find (\<lambda>e. modelId e = x) ems \<noteq> None \<and>
       hashes st x = Some (calculateModelHash rt m)"
    using Cons.prems(3) by simp
  have b: "\<And>c. c \<in> set (calls st) \<Longrightarrow> x \<notin> set (enrichedIds c)"
    using Cons.prems(5) by blast
  from processModel_not_added[OF pm Cons.prems(2) t Cons.prems(4) b]
  have l1: "x \<notin> set (map modelId (newModelsList st1))"
    and c1: "\<forall>c. c \<in> set (calls st1) \<longrightarrow> x \<notin> set (enrichedIds c)"
    and h1: "hashes st1 x = hashes st x" by blast+
  show ?case
  proof (cases r1)
    case (Some e)
    with Cons.prems(1) pm have "st' = st1" by simp
    with l1 c1 h1 show ?thesis by simp
  next
    case None
    with Cons.prems(1) pm have loop: "processLoop rt steps ems st1 ms = (r, st')" by simp
    have "\<forall>m\<in>set ms. modelId m = x \<longrightarrow>
        noChange steps = [] \<and> find (\<lambda>e. modelId e = x) ems \<noteq> None \<and>
        hashes st1 x = Some (calculateModelHash rt m)"
      using Cons.prems(3) h1 by simp
    from Cons.IH[OF loop Cons.prems(2) this l1 c1] h1 show ?thesis by simp
  qed
qed

subsection \<open>The whole run\<close>

lemma find_markMissing:
  assumes "find (\<lambda>e. modelId e = x) existing0 = Some e"
  shows "find (\<lambda>e. modelId e = x) (markMissing src existing0) =
           Some (if x \<in> set (map modelId src) then e else e\<lparr>deprecated := Some True\<rparr>)"
proof -
  from find_Some_holds[OF assms] have "x \<in> set (map modelId existing0)" by force
  then have "(x \<in> set (missingModelIds src existing0)) = (x \<notin> set (map modelId src))"
    by (simp add: missingModelIds_def)
  with assms show ?thesis
    by (simp add: markMissing_def find_markDeprecated_all)
qed

lemma processor_cases:
  assumes "processor rt src structure h0 steps = (res, st)"
  obtains (loopFailed) e where
      "processLoop rt steps (markMissing src (persistedModels structure)) (initialState h0) src =
         (Some e, st)"
      "res = Inl e"
    | (batchFailed) st1 e where
      "processLoop rt steps (markMissing src (persistedModels structure)) (initialState h0) src =
         (None, st1)"
      "runBatch (batch steps) (newModelsList st1) (calls st1) = (Inl e, calls st)"
      "res = Inl e" "hashes st = hashes st1"
    | (assembled) st1 batched cs where
      "processLoop rt steps (markMissing src (persistedModels structure)) (initialState h0) src =
         (None, st1)"
      "runBatch (batch steps) (newModelsList st1) (calls st1) = (Inr batched, cs)"
      "runOutputStructure (outputStructure steps)
         (structure\<lparr>os_models := Some (sortBy (\<lambda>a b. localeCompare rt (modelId a) (modelId b))
            (addBack (markMissing src (persistedModels structure)) batched))\<rparr>) cs = (res, calls st)"
      "hashes st = hashes st1"
proof -
  let ?ems = "markMissing src (persistedModels structure)"
  obtain r1 st1 where loop: "processLoop rt steps ?ems (initialState h0) src = (r1, st1)"
    by (cases "processLoop rt steps ?ems (initialState h0) src")
  show ?thesis
  proof (cases r1)
    case (Some e)
    with assms loop have "res = Inl e" "st = st1" by (simp_all add: processor_def)
    with loop Some show ?thesis by (auto intro: loopFailed)
  next
    case None
    obtain r2 cs where b: "runBatch (batch steps) (newModelsList st1) (calls st1) = (r2, cs)"
      by (cases "runBatch (batch steps) (newModelsList st1) (calls st1)")
    show ?thesis
    proof (cases r2)
      case (Inl e)
      with assms loop None b have "res = Inl e" "st = st1\<lparr>calls := cs\<rparr>"
        by (simp_all add: processor_def)
      with loop None b Inl show ?thesis by (auto intro: batchFailed)
    next
      case (Inr batched)
      let ?s = "structure\<lparr>os_models := Some (sortBy (\<lambda>a b. localeCompare rt (modelId a) (modelId b))
            (addBack ?ems batched))\<rparr>"
      obtain r3 cs3 where o: "runOutputStructure (outputStructure steps) ?s cs = (r3, cs3)"
        by (cases "runOutputStructure (outputStructure steps) ?s cs")
      with assms loop None b Inr have "res = r3" "calls st = cs3" "hashes st = hashes st1"
        by (auto simp: processor_def Let_def split: sum.splits)
      with loop None b Inr o show ?thesis by (auto intro: assembled)
    qed
  qed
qed

lemma processor_hash_and_sources:
  assumes run: "processor rt src structure h0 steps = (res, st)"
    and known: "find (\<lambda>e. modelId e = x) (persistedModels structure) = Some e"
    and same: "\<forall>m\<in>set src. modelId m = x \<longrightarrow> h0 x = Some (calculateModelHash rt m)"
  shows "hashes st x = h0 x \<and> x \<notin> set (newAndChangedSources (calls st))"
proof -
  let ?ems = "markMissing src (persistedModels structure)"
  have f: "find (\<lambda>e. modelId e = x) ?ems \<noteq> None"
    by (simp add: find_markMissing[OF known])
  have s0: "\<forall>m\<in>set src. modelId m = x \<longrightarrow> hashes (initialState h0) x = Some (calculateModelHash rt m)"
    using same by (simp add: initialState_def)
  have c0: "x \<notin> set (newAndChangedSources (calls (initialState h0)))"
    by (simp add: initialState_def)
  have h0: "hashes (initialState h0) x = h0 x" by (simp add: initialState_def)
  from run show ?thesis
  proof (cases rule: processor_cases)
    case (loopFailed e)
    from processLoop_unchanged[OF loopFailed(1) f s0 c0] h0 show ?thesis by simp
  next
    case (batchFailed st1 e)
    from processLoop_unchanged[OF batchFailed(1) f s0 c0] h0
      runBatch_sources[OF batchFailed(2)] batchFailed(4)
    show ?thesis by simp
  next
    case (assembled st1 batched cs)
    from processLoop_unchanged[OF assembled(1) f s0 c0] h0
      runBatch_sources[OF assembled(2)] runOutputStructure_sources[OF assembled(3)] assembled(4)
    show ?thesis by simp
  qed
qed

lemma processor_keeps_record:
  assumes run: "processor rt src structure h0 steps = (Inr out, st)"
    and keep: "stepsKeepIds steps"
    and target: "\<forall>m\<in>set src. modelId m = x \<longrightarrow>
        noChange steps = [] \<and> h0 x = Some (calculateModelHash rt m)"
    and known: "find (\<lambda>e. modelId e = x) (persistedModels structure) = Some e"
    and e': "e' = (if x \<in> set (map modelId src) then e else e\<lparr>deprecated := Some True\<rparr>)"
  shows "\<exists>models. os_models out = Some models \<and> e' \<in> set models \<and>
           (\<forall>r. r \<in> set models \<and> modelId r = x \<longrightarrow> r = e') \<and>
           (\<forall>c. c \<in> set (calls st) \<longrightarrow> x \<notin> set (enrichedIds c))"
proof -
  let ?ems = "markMissing src (persistedModels structure)"
  let ?cmp = "\<lambda>a b. localeCompare rt (modelId a) (modelId b)"
  have f: "find (\<lambda>e. modelId e = x) ?ems = Some e'"
    unfolding e' by (rule find_markMissing[OF known])
  have t0: "\<forall>m\<in>set src. modelId m = x \<longrightarrow>
      noChange steps = [] \<and> find (\<lambda>e. modelId e = x) ?ems \<noteq> None \<and>
      hashes (initialState h0) x = Some (calculateModelHash rt m)"
    using target f by (simp add: initialState_def)
  have l0: "x \<notin> set (map modelId (newModelsList (initialState h0)))"
    and c0: "\<forall>c. c \<in> set (calls (initialState h0)) \<longrightarrow> x \<notin> set (enrichedIds c)"
    by (simp_all add: initialState_def)
  from run show ?thesis
  proof (cases rule: processor_cases)
    case (loopFailed e)
    then show ?thesis by simp
  next
    case (batchFailed st1 e)
    then show ?thesis by simp
  next
    case (assembled st1 batched cs)
    from processLoop_not_added[OF assembled(1) keep t0 l0 c0]
    have l1: "x \<notin> set (map modelId (newModelsList st1))"
      and c1: "\<And>c. c \<in> set (calls st1) \<Longrightarrow> x \<notin> set (enrichedIds c)" by blast+
    from runBatch_ids[OF assembled(2) stepsKeepIds_batch[OF keep] l1 c1]
    have c2: "\<And>c. c \<in> set cs \<Longrightarrow> x \<notin> set (enrichedIds c)"
      and l2: "x \<notin> set (map modelId batched)" by blast+
    from runOutputStructure_ids[OF assembled(3) stepsKeepIds_outputStructure[OF keep] c2]
    have c3: "\<forall>c. c \<in> set (calls st) \<longrightarrow> x \<notin> set (enrichedIds c)"
      and m: "os_models out = Some (sortBy ?cmp (addBack ?ems batched))" by simp_all
    from l2 have "filter (\<lambda>m. modelId m = x) batched = []"
      by (auto simp: filter_empty_conv)
    with f have fl: "filter (\<lambda>m. modelId m = x) (addBack ?ems batched) = [e']"
      by (simp add: filter_addBack)
    have mem: "\<And>r. (r \<in> set (addBack ?ems batched) \<and> modelId r = x) = (r = e')"
    proof -
      fix r
      have "(r \<in> set (addBack ?ems batched) \<and> modelId r = x) =
            (r \<in> set (filter (\<lambda>m. modelId m = x) (addBack ?ems batched)))" by simp
      also have "\<dots> = (r = e')" unfolding fl by simp
      finally show "(r \<in> set (addBack ?ems batched) \<and> modelId r = x) = (r = e')" .
    qed
    from mem[of e'] have "e' \<in> set (sortBy ?cmp (addBack ?ems batched))"
      by (simp add: set_sortBy)
    moreover from mem
    have "\<forall>r. r \<in> set (sortBy ?cmp (addBack ?ems batched)) \<and> modelId r = x \<longrightarrow> r = e'"
      by (simp add: set_sortBy)
    ultimately show ?thesis using m c3 by blast
  qed
qed

lemma distinct_ids_unique:
  "distinct (map modelId ms) \<Longrightarrow> m \<in> set ms \<Longrightarrow> m' \<in> set ms \<Longrightarrow>
     modelId m' = modelId m \<Longrightarrow> m' = m"
  by (meson distinct_map inj_onD)

section \<open>The processor: unchanged, missing and deprecated models\<close>

lemma example_run:
  "fst (processor exampleRuntime [sourceKept, sourceNew] exampleStructure exampleHashes exampleSteps) =
     Inr exampleOutput"
  by code_simp

lemma example_run_state:
  "processor exampleRuntime [sourceKept, sourceNew] exampleStructure exampleHashes exampleSteps =
     (Inr exampleOutput,
      snd (processor exampleRuntime [sourceKept, sourceNew] exampleStructure exampleHashes exampleSteps))"
  using example_run by (simp add: prod_eq_iff)

lemma example_stepsKeepIds: "stepsKeepIds exampleSteps"
  by (auto simp: stepsKeepIds_def exampleSteps_def describeStep_def)

lemma example_known:
  "find (\<lambda>e. modelId e = modelId sourceKept) (persistedModels exampleStructure) = Some persistedKept"
  by code_simp

lemma example_gone:
  "find (\<lambda>e. modelId e = ''gone'') (persistedModels exampleStructure) = Some persistedGone"
  by code_simp

lemma example_same_hash:
  "exampleHashes (modelId sourceKept) = Some (calculateModelHash exampleRuntime sourceKept)"
  by code_simp

lemma example_distinct: "distinct (map modelId [sourceKept, sourceNew])"
  by code_simp

text \<open>
  C1. For a source model of a candidate list with distinct ids, whose id is in the
  persisted catalog and whose content hash equals the stored hash of that id: no
  newAndChanged step is invoked for that model and the stored hash of its id is the one
  stored before, whether the run succeeds or fails; and when no noChange step is
  configured, the steps keep the ids of the records they are given and the run succeeds,
  the persisted record of that id is in the output, unchanged, and is the only record of
  that id.
\<close>

theorem C1_unchanged_model_is_skipped:
  assumes run: "processor rt sourceModels structure hashes0 steps = (result, st)"
    and ids: "distinct (map modelId sourceModels)"
    and m: "m \<in> set sourceModels"
    and known: "find (\<lambda>e. modelId e = modelId m) (persistedModels structure) = Some existing"
    and same: "hashes0 (modelId m) = Some (calculateModelHash rt m)"
  shows "modelId m \<notin> set (newAndChangedSources (calls st)) \<and>
         hashes st (modelId m) = hashes0 (modelId m) \<and>
         (noChange steps = [] \<and> stepsKeepIds steps \<longrightarrow>
            (\<forall>out. result = Inr out \<longrightarrow>
               (\<exists>models. os_models out = Some models \<and> existing \<in> set models \<and>
                  (\<forall>r. r \<in> set models \<and> modelId r = modelId m \<longrightarrow> r = existing))))"
proof -
  have only: "\<forall>m'\<in>set sourceModels. modelId m' = modelId m \<longrightarrow> m' = m"
    using distinct_ids_unique[OF ids m] by blast
  with same have s: "\<forall>m'\<in>set sourceModels. modelId m' = modelId m \<longrightarrow>
      hashes0 (modelId m) = Some (calculateModelHash rt m')" by auto
  from processor_hash_and_sources[OF run known s]
  have a: "modelId m \<notin> set (newAndChangedSources (calls st))"
    and b: "hashes st (modelId m) = hashes0 (modelId m)" by simp_all
  have c: "noChange steps = [] \<and> stepsKeepIds steps \<longrightarrow>
      (\<forall>out. result = Inr out \<longrightarrow>
         (\<exists>models. os_models out = Some models \<and> existing \<in> set models \<and>
            (\<forall>r. r \<in> set models \<and> modelId r = modelId m \<longrightarrow> r = existing)))"
  proof (intro impI allI)
    fix out
    assume h: "noChange steps = [] \<and> stepsKeepIds steps" and res: "result = Inr out"
    from s h have t: "\<forall>m'\<in>set sourceModels. modelId m' = modelId m \<longrightarrow>
        noChange steps = [] \<and> hashes0 (modelId m) = Some (calculateModelHash rt m')" by simp
    have e: "existing = (if modelId m \<in> set (map modelId sourceModels) then existing
        else existing\<lparr>deprecated := Some True\<rparr>)" using m by simp
    from run res have run': "processor rt sourceModels structure hashes0 steps = (Inr out, st)"
      by simp
    from processor_keeps_record[OF run' conjunct2[OF h] t known e]
    show "\<exists>models. os_models out = Some models \<and> existing \<in> set models \<and>
        (\<forall>r. r \<in> set models \<and> modelId r = modelId m \<longrightarrow> r = existing)" by blast
  qed
  from a b c show ?thesis by blast
qed

theorem C1_unchanged_model_is_skipped_witness:
  "fst (processor exampleRuntime [sourceKept, sourceNew] exampleStructure exampleHashes exampleSteps) =
     Inr exampleOutput \<and>
   distinct (map modelId [sourceKept, sourceNew]) \<and>
   sourceKept \<in> set [sourceKept, sourceNew] \<and>
   find (\<lambda>e. modelId e = modelId sourceKept) (persistedModels exampleStructure) = Some persistedKept \<and>
   exampleHashes (modelId sourceKept) = Some (calculateModelHash exampleRuntime sourceKept) \<and>
   noChange exampleSteps = [] \<and> stepsKeepIds exampleSteps \<and>
   modelId sourceKept \<notin> set (newAndChangedSources (calls (snd
     (processor exampleRuntime [sourceKept, sourceNew] exampleStructure exampleHashes exampleSteps)))) \<and>
   hashes (snd (processor exampleRuntime [sourceKept, sourceNew] exampleStructure exampleHashes
     exampleSteps)) (modelId sourceKept) = exampleHashes (modelId sourceKept) \<and>
   (\<exists>models. os_models exampleOutput = Some models \<and> persistedKept \<in> set models)"
proof -
  have mem: "sourceKept \<in> set [sourceKept, sourceNew]" by simp
  have nc: "noChange exampleSteps = []" by (simp add: exampleSteps_def)
  from C1_unchanged_model_is_skipped[OF example_run_state example_distinct mem example_known
      example_same_hash] nc example_stepsKeepIds
  have "modelId sourceKept \<notin> set (newAndChangedSources (calls (snd
     (processor exampleRuntime [sourceKept, sourceNew] exampleStructure exampleHashes exampleSteps))))"
    and "hashes (snd (processor exampleRuntime [sourceKept, sourceNew] exampleStructure exampleHashes
     exampleSteps)) (modelId sourceKept) = exampleHashes (modelId sourceKept)"
    and "\<exists>models. os_models exampleOutput = Some models \<and> persistedKept \<in> set models"
    by blast+
  with example_run example_distinct mem example_known example_same_hash nc example_stepsKeepIds
  show ?thesis by blast
qed

text \<open>
  C2. For an id of the persisted catalog that no source model has, when the steps keep
  the ids of the records they are given and the run succeeds: the output contains the
  persisted record of that id with \<open>deprecated = true\<close> and every other field as
  persisted, it is the only record of that id, and no per-model or batch step has been
  given a record of that id.
\<close>

theorem C2_missing_model_is_deprecated:
  assumes run: "processor rt sourceModels structure hashes0 steps = (Inr out, st)"
    and keep: "stepsKeepIds steps"
    and known: "find (\<lambda>e. modelId e = x) (persistedModels structure) = Some existing"
    and absent: "x \<notin> set (map modelId sourceModels)"
  shows "\<exists>models. os_models out = Some models \<and>
           existing\<lparr>deprecated := Some True\<rparr> \<in> set models \<and>
           (\<forall>r. r \<in> set models \<and> modelId r = x \<longrightarrow> r = existing\<lparr>deprecated := Some True\<rparr>) \<and>
           (\<forall>c. c \<in> set (calls st) \<longrightarrow> x \<notin> set (enrichedIds c))"
proof -
  from absent have t: "\<forall>m\<in>set sourceModels. modelId m = x \<longrightarrow>
      noChange steps = [] \<and> hashes0 x = Some (calculateModelHash rt m)" by auto
  from absent have e: "existing\<lparr>deprecated := Some True\<rparr> =
      (if x \<in> set (map modelId sourceModels) then existing else existing\<lparr>deprecated := Some True\<rparr>)"
    by simp
  from processor_keeps_record[OF run keep t known e] show ?thesis .
qed

theorem C2_missing_model_is_deprecated_witness:
  "fst (processor exampleRuntime [sourceKept, sourceNew] exampleStructure exampleHashes exampleSteps) =
     Inr exampleOutput \<and>
   stepsKeepIds exampleSteps \<and>
   find (\<lambda>e. modelId e = ''gone'') (persistedModels exampleStructure) = Some persistedGone \<and>
   ''gone'' \<notin> set (map modelId [sourceKept, sourceNew]) \<and>
   deprecated persistedGone = None \<and>
   (\<exists>models. os_models exampleOutput = Some models \<and>
      persistedGone\<lparr>deprecated := Some True\<rparr> \<in> set models)"
proof -
  have absent: "''gone'' \<notin> set (map modelId [sourceKept, sourceNew])" by code_simp
  have d: "deprecated persistedGone = None" by code_simp
  from C2_missing_model_is_deprecated[OF example_run_state example_stepsKeepIds example_gone absent]
  have "\<exists>models. os_models exampleOutput = Some models \<and>
      persistedGone\<lparr>deprecated := Some True\<rparr> \<in> set models" by blast
  with example_run example_stepsKeepIds example_gone absent d show ?thesis by blast
qed

text \<open>
  C10. When the persisted record of an id has \<open>deprecated = true\<close> and the id is again
  in the candidate list (of distinct ids) with the stored content hash, no noChange step
  is configured, the steps keep the ids of the records they are given and the run
  succeeds, the output has a record of that id and every record of that id in the
  output has \<open>deprecated = true\<close>.
\<close>

theorem C10_deprecated_stays_deprecated:
  assumes run: "processor rt sourceModels structure hashes0 steps = (Inr out, st)"
    and ids: "distinct (map modelId sourceModels)"
    and m: "m \<in> set sourceModels"
    and known: "find (\<lambda>e. modelId e = modelId m) (persistedModels structure) = Some existing"
    and dep: "deprecated existing = Some True"
    and same: "hashes0 (modelId m) = Some (calculateModelHash rt m)"
    and light: "noChange steps = []"
    and keep: "stepsKeepIds steps"
  shows "\<exists>models. os_models out = Some models \<and>
           (\<exists>r. r \<in> set models \<and> modelId r = modelId m) \<and>
           (\<forall>r. r \<in> set models \<and> modelId r = modelId m \<longrightarrow> deprecated r = Some True)"
proof -
  have "\<forall>m'\<in>set sourceModels. modelId m' = modelId m \<longrightarrow> m' = m"
    using distinct_ids_unique[OF ids m] by blast
  with same light have t: "\<forall>m'\<in>set sourceModels. modelId m' = modelId m \<longrightarrow>
      noChange steps = [] \<and> hashes0 (modelId m) = Some (calculateModelHash rt m')" by auto
  have e: "existing = (if modelId m \<in> set (map modelId sourceModels) then existing
      else existing\<lparr>deprecated := Some True\<rparr>)" using m by simp
  from processor_keeps_record[OF run keep t known e] obtain models where
    o: "os_models out = Some models" and i: "existing \<in> set models"
    and u: "\<forall>r. r \<in> set models \<and> modelId r = modelId m \<longrightarrow> r = existing" by blast
  from find_Some_holds[OF known] have "modelId existing = modelId m" by simp
  with i have "\<exists>r. r \<in> set models \<and> modelId r = modelId m" by blast
  moreover from u dep
  have "\<forall>r. r \<in> set models \<and> modelId r = modelId m \<longrightarrow> deprecated r = Some True" by blast
  ultimately show ?thesis using o by blast
qed

theorem C10_deprecated_stays_deprecated_witness:
  "fst (processor exampleRuntime [sourceKept, sourceNew] exampleStructure exampleHashes exampleSteps) =
     Inr exampleOutput \<and>
   distinct (map modelId [sourceKept, sourceNew]) \<and>
   sourceKept \<in> set [sourceKept, sourceNew] \<and>
   find (\<lambda>e. modelId e = modelId sourceKept) (persistedModels exampleStructure) = Some persistedKept \<and>
   deprecated persistedKept = Some True \<and>
   exampleHashes (modelId sourceKept) = Some (calculateModelHash exampleRuntime sourceKept) \<and>
   noChange exampleSteps = [] \<and> stepsKeepIds exampleSteps \<and>
   (\<exists>models. os_models exampleOutput = Some models \<and>
      (\<exists>r. r \<in> set models \<and> modelId r = modelId sourceKept \<and> deprecated r = Some True))"
proof -
  have mem: "sourceKept \<in> set [sourceKept, sourceNew]" by simp
  have nc: "noChange exampleSteps = []" by (simp add: exampleSteps_def)
  have dep: "deprecated persistedKept = Some True" by code_simp
  from C10_deprecated_stays_deprecated[OF example_run_state example_distinct mem example_known dep
      example_same_hash nc example_stepsKeepIds]
  have "\<exists>models. os_models exampleOutput = Some models \<and>
      (\<exists>r. r \<in> set models \<and> modelId r = modelId sourceKept \<and> deprecated r = Some True)"
    by blast
  with example_run example_distinct mem example_known dep example_same_hash nc example_stepsKeepIds
  show ?thesis by blast
qed

text \<open>
  C5 fails on the code when a noChange step is configured: the record of the unchanged
  model \<open>kept\<close>, for which no newAndChanged step is invoked, is pushed onto
  \<open>newModelsList\<close> and handed to the batch step together with the processed new model.
\<close>

theorem C5_unchanged_record_reaches_batch_step:
  "storedHash exampleHashes (modelId sourceKept) = calculateModelHash exampleRuntime sourceKept \<and>
   find (\<lambda>e. modelId e = modelId sourceKept) (persistedModels exampleStructure) = Some persistedKept \<and>
   length (noChange lightSteps) = 1 \<and>
   newAndChangedSources (calls (snd
     (processor exampleRuntime [sourceKept, sourceNew] exampleStructure exampleHashes lightSteps))) =
     [''new''] \<and>
   batchArguments (calls (snd
     (processor exampleRuntime [sourceKept, sourceNew] exampleStructure exampleHashes lightSteps))) =
     [[persistedKept, processedNew]]"
  by code_simp

text \<open>With no noChange step, the same run hands the batch step the new model only.\<close>

lemma batch_without_noChange_example:
  "batchArguments (calls (snd
     (processor exampleRuntime [sourceKept, sourceNew] exampleStructure exampleHashes exampleSteps))) =
     [[processedNew]]"
  by code_simp

end
